theory Spec2Isabelle
  imports Complex_Main "HOL-Library.AList"
begin

section \<open>The goal-oriented bot of \<open>deeppavlov/skills/go_bot/go_bot.py\<close>\<close>

text \<open>
  The class \<open>GoalOrientedBot\<close> orchestrates a tokenizer, a bag-of-words encoder, an
  optional embedder, intent classifier and slot filler, a dialog-state tracker, a policy
  network and a template store. None of these collaborators is defined in the file; each
  is a field of the record \<open>bot\<close> below, a total function standing for the call the
  class makes. Numeric arrays are lists of reals: the values the class itself writes are
  only 0 and 1. Python dictionaries are association lists in insertion order
  (\<open>{}\<close> is \<open>[]\<close>), \<open>None\<close> is \<open>None\<close>. Exceptions are values of the type
  \<open>error\<close>; debug logging and the metric counters of \<open>DialogMetrics\<close> are left out,
  they decide no branch.
\<close>

subsection \<open>Data\<close>

datatype error = ValueError | IndexError | ConfigError

type_synonym 'v pydict = "(string \<times> 'v) list"

text \<open>
  The policy network is opaque and stateful. Its state is the history of the calls made
  to it, and what it answers is a function of that history.
\<close>

datatype net_call =
    ResetState
  | Train "real list list" "nat list" "real list list"
  | Infer "real list" "real list"
  | Save

record 'v turn_context =
  ctx_text :: string
  ctx_db_result :: "'v pydict option"
  ctx_prev_resp_act :: "string option"

record turn_response =
  resp_act :: string
  resp_text :: string

text \<open>
  The fields of the object that never change after \<open>__init__\<close>, with the collaborators.
  An optional collaborator is \<open>None\<close> when the object has no \<open>infer\<close> attribute.

  Modelled from the spec: the template store (class \<open>Templates\<close>, not in the file) is
  the ordered list of action labels with, per action, its template; \<open>templates.actions\<close>
  is the list of labels, \<open>templates.templates\<close> the list of templates and
  \<open>len(templates)\<close> their common length.
\<close>

record ('t, 'tm, 'v) bot =
  tokenizer_infer :: "string \<Rightarrow> string list"
  bow_encoder_infer :: "string \<Rightarrow> real list"
  embedder_infer :: "(string \<Rightarrow> real list) option"
  intent_classifier_infer :: "(string \<Rightarrow> real list) option"
  slot_filler_infer :: "(string \<Rightarrow> string pydict) option"
  tracker_update_state :: "'t \<Rightarrow> string pydict \<Rightarrow> 't"
  tracker_infer :: "'t \<Rightarrow> real list"
  tracker_get_state :: "'t \<Rightarrow> string pydict"
  tracker_reset_state :: "'t \<Rightarrow> 't"
  network_infer :: "net_call list \<Rightarrow> real list"
  network_train_now :: bool
  template_store :: "(string \<times> 'tm) list"
  template_str :: "'tm \<Rightarrow> string"
  generate_text :: "'tm \<Rightarrow> string pydict \<Rightarrow> string"
  py_str :: "'v \<Rightarrow> string"
  use_action_mask :: bool
  num_epochs :: nat
  val_patience :: int

text \<open>The fields that the methods assign.\<close>

record ('t, 'v) bot_state =
  tracker :: 't
  db_result :: "'v pydict option"
  prev_action :: "real list"
  net_log :: "net_call list"

definition actions :: "('t, 'tm, 'v) bot \<Rightarrow> string list" where
  "actions b = map fst (template_store b)"

definition templates :: "('t, 'tm, 'v) bot \<Rightarrow> 'tm list" where
  "templates b = map snd (template_store b)"

definition n_actions :: "('t, 'tm, 'v) bot \<Rightarrow> nat" where
  "n_actions b = length (template_store b)"

subsection \<open>Python primitives\<close>

text \<open>\<open>xs.index(x)\<close>: the first position of \<open>x\<close>, \<open>ValueError\<close> when there is none.\<close>

fun list_index :: "'a list \<Rightarrow> 'a \<Rightarrow> error + nat" where
  "list_index [] x = Inl ValueError"
| "list_index (y # ys) x =
     (if y = x then Inr 0
      else (case list_index ys x of Inl e \<Rightarrow> Inl e | Inr i \<Rightarrow> Inr (Suc i)))"

text \<open>\<open>xs[i]\<close> for an integer \<open>i\<close>: an index from \<open>-len(xs)\<close> to \<open>-1\<close> counts from the end.\<close>

definition list_getitem :: "'a list \<Rightarrow> int \<Rightarrow> error + 'a" where
  "list_getitem xs i =
     (if 0 \<le> i \<and> i < int (length xs) then Inr (xs ! nat i)
      else if - int (length xs) \<le> i \<and> i < 0 then Inr (xs ! nat (i + int (length xs)))
      else Inl IndexError)"

text \<open>\<open>k in d\<close> for a dictionary \<open>d\<close>.\<close>

definition has_key :: "string \<Rightarrow> 'v pydict \<Rightarrow> bool" where
  "has_key k d = (k \<in> set (map fst d))"

text \<open>\<open>' '.join(tokens)\<close> and \<open>s.strip()\<close>; a character is a code point below 256.\<close>

fun join_spaces :: "string list \<Rightarrow> string" where
  "join_spaces [] = []"
| "join_spaces [w] = w"
| "join_spaces (w # ws) = w @ '' '' @ join_spaces ws"

definition is_space :: "char \<Rightarrow> bool" where
  "is_space c = (of_char c \<in> {9, 10, 11, 12, 13, 28, 29, 30, 31, 32, 133, 160 :: nat})"

definition strip :: "string \<Rightarrow> string" where
  "strip s = rev (dropWhile is_space (rev (dropWhile is_space s)))"

text \<open>
  \<open>re.findall('#{}', s)\<close>. A brace that opens no repetition count is an ordinary
  character for Python's \<open>re\<close>, so the pattern is the three characters \<open>#{}\<close>, and
  the result lists each occurrence of them, scanning from the left without overlap.
\<close>

fun findall_hash_braces :: "string \<Rightarrow> string list" where
  "findall_hash_braces [] = []"
| "findall_hash_braces (c # cs) =
     (if c = CHR ''#'' \<and> take 2 cs = ''{}''
      then ''#{}'' # findall_hash_braces (drop 2 cs)
      else findall_hash_braces cs)"

text \<open>\<open>np.argmax\<close>: the first position of the greatest entry, \<open>ValueError\<close> on an empty array.\<close>

fun argmax_from :: "real list \<Rightarrow> nat \<Rightarrow> nat \<Rightarrow> real \<Rightarrow> nat" where
  "argmax_from [] i best_i best_v = best_i"
| "argmax_from (x # xs) i best_i best_v =
     (if best_v < x then argmax_from xs (Suc i) i x
      else argmax_from xs (Suc i) best_i best_v)"

definition np_argmax :: "real list \<Rightarrow> error + nat" where
  "np_argmax xs = (case xs of [] \<Rightarrow> Inl ValueError | x # ys \<Rightarrow> Inr (argmax_from ys 1 0 x))"

text \<open>
  \<open>self.prev_action *= 0.\<close> followed by \<open>self.prev_action[action_id] = 1.\<close>, for an
  index that is not negative.
\<close>

definition set_one_hot :: "nat \<Rightarrow> real list \<Rightarrow> error + real list" where
  "set_one_hot action_id pa =
     (if action_id < length pa then Inr ((map (\<lambda>x. x * 0) pa)[action_id := 1])
      else Inl IndexError)"

definition one_hot :: "nat \<Rightarrow> nat \<Rightarrow> real list" where
  "one_hot n a = (replicate n 0)[a := 1]"

definition flag :: "bool \<Rightarrow> real" where
  "flag p = (if p then 1 else 0)"

subsection \<open>The methods of the class\<close>

text \<open>\<open>reset\<close>\<close>

definition reset :: "('t, 'tm, 'v) bot \<Rightarrow> ('t, 'v) bot_state \<Rightarrow> ('t, 'v) bot_state" where
  "reset b s =
     \<lparr> tracker = tracker_reset_state b (tracker s),
       db_result = None,
       prev_action = replicate (n_actions b) 0,
       net_log = net_log s @ [ResetState] \<rparr>"

text \<open>\<open>save\<close>\<close>

definition save :: "('t, 'v) bot_state \<Rightarrow> ('t, 'v) bot_state" where
  "save s = s\<lparr> net_log := net_log s @ [Save] \<rparr>"

text \<open>\<open>_encode_response\<close>\<close>

definition encode_response :: "('t, 'tm, 'v) bot \<Rightarrow> string \<Rightarrow> error + nat" where
  "encode_response b act = list_index (actions b) act"

text \<open>
  \<open>_decode_response\<close>. Its first statement indexes the template list; the rest overlays
  the database result on the slots of the tracker and renders the template. The
  dictionary that \<open>tracker.get_state()\<close> returns is taken to be a fresh one: writing the
  database result into it does not change the tracker.
\<close>

definition decode_template :: "('t, 'tm, 'v) bot \<Rightarrow> int \<Rightarrow> error + 'tm" where
  "decode_template b action_id = list_getitem (templates b) action_id"

definition response_slots :: "('t, 'tm, 'v) bot \<Rightarrow> ('t, 'v) bot_state \<Rightarrow> string pydict" where
  "response_slots b s =
     (case db_result s of
        None \<Rightarrow> tracker_get_state b (tracker s)
      | Some d \<Rightarrow>
          fold (\<lambda>(k, v) slots. AList.update k (py_str b v) slots) d
            (tracker_get_state b (tracker s)))"

definition decode_response ::
  "('t, 'tm, 'v) bot \<Rightarrow> int \<Rightarrow> ('t, 'v) bot_state \<Rightarrow> error + string" where
  "decode_response b action_id s =
     (case decode_template b action_id of
        Inl e \<Rightarrow> Inl e
      | Inr template \<Rightarrow> Inr (generate_text b template (response_slots b s)))"

text \<open>
  \<open>_encode_context\<close>. The tracker is the only field it assigns, and only when a slot
  filler is present. The two context flags compare the argument and the stored database
  result with the empty dictionary.
\<close>

definition tokenized :: "('t, 'tm, 'v) bot \<Rightarrow> string \<Rightarrow> string" where
  "tokenized b context = strip (join_spaces (tokenizer_infer b context))"

definition encode_context ::
  "('t, 'tm, 'v) bot \<Rightarrow> string \<Rightarrow> 'v pydict option \<Rightarrow> ('t, 'v) bot_state
     \<Rightarrow> real list \<times> ('t, 'v) bot_state" where
  "encode_context b context db s =
     (let tok = tokenized b context;
          bow_features = bow_encoder_infer b tok;
          emb_features = (case embedder_infer b of None \<Rightarrow> [] | Some infer \<Rightarrow> infer tok);
          intent_features =
            (case intent_classifier_infer b of None \<Rightarrow> [] | Some infer \<Rightarrow> infer tok);
          s1 = (case slot_filler_infer b of
                  None \<Rightarrow> s
                | Some infer \<Rightarrow> s\<lparr> tracker := tracker_update_state b (tracker s) (infer tok) \<rparr>);
          state_features = tracker_infer b (tracker s1);
          context_features = [flag (db = Some []), flag (db_result s1 = Some [])]
      in (bow_features @ emb_features @ intent_features @ state_features
            @ context_features @ prev_action s1, s1))"

text \<open>\<open>_action_mask\<close>: the inner loop over the matches, then the loop over the actions.\<close>

fun mask_entities ::
  "string list \<Rightarrow> string pydict \<Rightarrow> 'v pydict \<Rightarrow> nat \<Rightarrow> real list \<Rightarrow> real list" where
  "mask_entities [] st db a_id action_mask = action_mask"
| "mask_entities (entity # es) st db a_id action_mask =
     mask_entities es st db a_id
       (if \<not> has_key entity st \<and> \<not> has_key entity db then action_mask[a_id := 0]
        else action_mask)"

definition action_mask :: "('t, 'tm, 'v) bot \<Rightarrow> ('t, 'v) bot_state \<Rightarrow> real list" where
  "action_mask b s =
     (if use_action_mask b then
        fold (\<lambda>a_id m.
                mask_entities (findall_hash_braces (template_str b (templates b ! a_id)))
                  (tracker_get_state b (tracker s))
                  (case db_result s of None \<Rightarrow> [] | Some d \<Rightarrow> d) a_id m)
          [0..<n_actions b] (replicate (n_actions b) 1)
      else replicate (n_actions b) 1)"

text \<open>
  One turn of the loop \<open>for context, response in zip(*dialog)\<close>, which \<open>train_on_batch\<close>
  and \<open>train\<close> have word for word in common. It yields what the turn appends to
  \<open>d_features\<close>, \<open>d_actions\<close> and \<open>d_masks\<close>.
\<close>

definition store_db_result ::
  "'v pydict option \<Rightarrow> ('t, 'v) bot_state \<Rightarrow> ('t, 'v) bot_state" where
  "store_db_result db s = (case db of None \<Rightarrow> s | Some d \<Rightarrow> s\<lparr> db_result := Some d \<rparr>)"

definition train_turn ::
  "('t, 'tm, 'v) bot \<Rightarrow> 'v turn_context \<times> turn_response \<Rightarrow> ('t, 'v) bot_state
     \<Rightarrow> error + ((real list \<times> nat \<times> real list) \<times> ('t, 'v) bot_state)" where
  "train_turn b cr s =
     (let (features, s1) = encode_context b (ctx_text (fst cr)) (ctx_db_result (fst cr)) s;
          s2 = store_db_result (ctx_db_result (fst cr)) s1
      in case encode_response b (resp_act (snd cr)) of
           Inl e \<Rightarrow> Inl e
         | Inr action_id \<Rightarrow>
             (case set_one_hot action_id (prev_action s2) of
                Inl e \<Rightarrow> Inl e
              | Inr pa \<Rightarrow>
                  (let s3 = s2\<lparr> prev_action := pa \<rparr>
                   in Inr ((features, action_id, action_mask b s3), s3))))"

fun dialog_turns ::
  "('t, 'tm, 'v) bot \<Rightarrow> ('v turn_context \<times> turn_response) list \<Rightarrow> ('t, 'v) bot_state
     \<Rightarrow> error + ((real list list \<times> nat list \<times> real list list) \<times> ('t, 'v) bot_state)" where
  "dialog_turns b [] s = Inr (([], [], []), s)"
| "dialog_turns b (cr # crs) s =
     (case train_turn b cr s of
        Inl e \<Rightarrow> Inl e
      | Inr ((f, a, m), s1) \<Rightarrow>
          (case dialog_turns b crs s1 of
             Inl e \<Rightarrow> Inl e
           | Inr ((fs, as, ms), s2) \<Rightarrow> Inr ((f # fs, a # as, m # ms), s2)))"

text \<open>
  The body of \<open>for dialog in zip(*batch)\<close>: a dialog is the pair of its contexts and its
  responses. The call \<open>network.train\<close> is recorded; what it returns feeds the metrics only.
\<close>

type_synonym 'v dialog = "'v turn_context list \<times> turn_response list"

type_synonym 'v batch = "'v turn_context list list \<times> turn_response list list"

definition train_dialog ::
  "('t, 'tm, 'v) bot \<Rightarrow> 'v dialog \<Rightarrow> ('t, 'v) bot_state \<Rightarrow> error + ('t, 'v) bot_state" where
  "train_dialog b dialog s =
     (case dialog_turns b (zip (fst dialog) (snd dialog)) (reset b s) of
        Inl e \<Rightarrow> Inl e
      | Inr ((d_features, d_actions, d_masks), s1) \<Rightarrow>
          Inr (s1\<lparr> net_log := net_log s1 @ [Train d_features d_actions d_masks] \<rparr>))"

fun train_dialogs ::
  "('t, 'tm, 'v) bot \<Rightarrow> 'v dialog list \<Rightarrow> ('t, 'v) bot_state \<Rightarrow> error + ('t, 'v) bot_state" where
  "train_dialogs b [] s = Inr s"
| "train_dialogs b (d # ds) s =
     (case train_dialog b d s of Inl e \<Rightarrow> Inl e | Inr s1 \<Rightarrow> train_dialogs b ds s1)"


text \<open>
  \<open>train\<close>. The batches that \<open>data.batch_generator(1, 'train', shuffle=False)\<close> yields are
  the list \<open>tr_data\<close>. The method \<open>evaluate\<close> is inherited and not in the file: the
  validation accuracy it reports in epoch \<open>j\<close> is \<open>valid_accuracy j\<close>, and the state in
  which its two passes leave the bot is \<open>evaluate_state\<close> of the state before them.
\<close>

fun train_batches ::
  "('t, 'tm, 'v) bot \<Rightarrow> 'v batch list \<Rightarrow> ('t, 'v) bot_state \<Rightarrow> error + ('t, 'v) bot_state" where
  "train_batches b [] s = Inr s"
| "train_batches b (batch # tr_data) s =
     (case train_dialogs b (zip (fst batch) (snd batch)) s of
        Inl e \<Rightarrow> Inl e
      | Inr s1 \<Rightarrow> train_batches b tr_data s1)"

datatype stop = PatienceOver | MaxEpochs

definition patience_update :: "int \<Rightarrow> real \<Rightarrow> int \<times> real \<Rightarrow> int \<times> real" where
  "patience_update patience valid_acc pb =
     (case pb of (curr_patience, best_valid_accuracy) \<Rightarrow>
        if valid_acc < best_valid_accuracy then (curr_patience - 1, best_valid_accuracy)
        else ((if curr_patience \<noteq> patience then patience else curr_patience), valid_acc))"

text \<open>
  The loop \<open>for j in range(self.num_epochs)\<close> over the epochs still to run. It yields how
  the loop ended, the number of epochs it ran, the counter and the best accuracy at its
  end, and the state.
\<close>

fun train_epochs ::
  "('t, 'tm, 'v) bot \<Rightarrow> 'v batch list \<Rightarrow> (('t, 'v) bot_state \<Rightarrow> ('t, 'v) bot_state)
     \<Rightarrow> (nat \<Rightarrow> real) \<Rightarrow> nat list \<Rightarrow> int \<times> real \<Rightarrow> ('t, 'v) bot_state
     \<Rightarrow> error + (stop \<times> nat \<times> (int \<times> real) \<times> ('t, 'v) bot_state)" where
  "train_epochs b tr_data evaluate_state valid_accuracy [] pb s = Inr (MaxEpochs, 0, pb, s)"
| "train_epochs b tr_data evaluate_state valid_accuracy (j # js) pb s =
     (case train_batches b tr_data s of
        Inl e \<Rightarrow> Inl e
      | Inr s1 \<Rightarrow>
          (let s2 = evaluate_state s1;
               pb' = patience_update (val_patience b) (valid_accuracy j) pb
           in if fst pb' < 1 then Inr (PatienceOver, 1, pb', s2)
              else (case train_epochs b tr_data evaluate_state valid_accuracy js pb' s2 of
                      Inl e \<Rightarrow> Inl e
                    | Inr (st, k, pb'', s3) \<Rightarrow> Inr (st, Suc k, pb'', s3))))"

definition train ::
  "('t, 'tm, 'v) bot \<Rightarrow> 'v batch list \<Rightarrow> (('t, 'v) bot_state \<Rightarrow> ('t, 'v) bot_state)
     \<Rightarrow> (nat \<Rightarrow> real) \<Rightarrow> ('t, 'v) bot_state
     \<Rightarrow> error + (stop \<times> nat \<times> (int \<times> real) \<times> ('t, 'v) bot_state)" where
  "train b tr_data evaluate_state valid_accuracy s =
     (if \<not> network_train_now b then Inl ConfigError
      else (case train_epochs b tr_data evaluate_state valid_accuracy [0..<num_epochs b]
                   (val_patience b, 0) s of
              Inl e \<Rightarrow> Inl e
            | Inr (st, k, pb, s1) \<Rightarrow> Inr (st, k, pb, save s1)))"

text \<open>\<open>_infer\<close>, with the call to the network recorded before its answer is read.\<close>

definition priv_infer ::
  "('t, 'tm, 'v) bot \<Rightarrow> string \<Rightarrow> 'v pydict option \<Rightarrow> bool \<Rightarrow> ('t, 'v) bot_state
     \<Rightarrow> error + (string \<times> ('t, 'v) bot_state)" where
  "priv_infer b context db prob s =
     (let (features, s1) = encode_context b context db s;
          s2 = s1\<lparr> net_log := net_log s1 @ [Infer features (action_mask b s1)] \<rparr>;
          probs = network_infer b (net_log s2)
      in case np_argmax probs of
           Inl e \<Rightarrow> Inl e
         | Inr pred_id \<Rightarrow>
             (let s3 = store_db_result db s2
              in case (if prob then Inr probs else set_one_hot pred_id (prev_action s3)) of
                   Inl e \<Rightarrow> Inl e
                 | Inr pa \<Rightarrow>
                     (let s4 = s3\<lparr> prev_action := pa \<rparr>
                      in case decode_response b (int pred_id) s4 of
                           Inl e \<Rightarrow> Inl e
                         | Inr response \<Rightarrow> Inr (response, s4))))"

text \<open>\<open>_infer_dialog\<close>: the loop over the contexts, then the method.\<close>

fun infer_turns ::
  "('t, 'tm, 'v) bot \<Rightarrow> 'v turn_context list \<Rightarrow> ('t, 'v) bot_state
     \<Rightarrow> error + (string list \<times> ('t, 'v) bot_state)" where
  "infer_turns b [] s = Inr ([], s)"
| "infer_turns b (context # contexts) s =
     (case (case ctx_prev_resp_act context of
              None \<Rightarrow> Inr s
            | Some act \<Rightarrow>
                (case encode_response b act of
                   Inl e \<Rightarrow> Inl e
                 | Inr action_id \<Rightarrow>
                     (case set_one_hot action_id (prev_action s) of
                        Inl e \<Rightarrow> Inl e
                      | Inr pa \<Rightarrow> Inr (s\<lparr> prev_action := pa \<rparr>)))) of
        Inl e \<Rightarrow> Inl e
      | Inr s1 \<Rightarrow>
          (case priv_infer b (ctx_text context) (ctx_db_result context) False s1 of
             Inl e \<Rightarrow> Inl e
           | Inr (r, s2) \<Rightarrow>
               (case infer_turns b contexts s2 of
                  Inl e \<Rightarrow> Inl e
                | Inr (res, s3) \<Rightarrow> Inr (r # res, s3))))"

definition infer_dialog ::
  "('t, 'tm, 'v) bot \<Rightarrow> 'v turn_context list \<Rightarrow> ('t, 'v) bot_state
     \<Rightarrow> error + (string list \<times> ('t, 'v) bot_state)" where
  "infer_dialog b contexts s = infer_turns b contexts (reset b s)"

text \<open>\<open>infer_on_batch\<close>\<close>

fun infer_on_batch ::
  "('t, 'tm, 'v) bot \<Rightarrow> 'v turn_context list list \<Rightarrow> ('t, 'v) bot_state
     \<Rightarrow> error + (string list list \<times> ('t, 'v) bot_state)" where
  "infer_on_batch b [] s = Inr ([], s)"
| "infer_on_batch b (x # xs) s =
     (case infer_dialog b x s of
        Inl e \<Rightarrow> Inl e
      | Inr (r, s1) \<Rightarrow>
          (case infer_on_batch b xs s1 of
             Inl e \<Rightarrow> Inl e
           | Inr (rs, s2) \<Rightarrow> Inr (r # rs, s2)))"

text \<open>\<open>infer\<close>: a string is one turn, anything else a batch of dialogs.\<close>

datatype 'v infer_input = Str string | Dialogs "'v turn_context list list"

datatype infer_output = Response string | Responses "string list list"

definition infer ::
  "('t, 'tm, 'v) bot \<Rightarrow> 'v infer_input \<Rightarrow> ('t, 'v) bot_state
     \<Rightarrow> error + (infer_output \<times> ('t, 'v) bot_state)" where
  "infer b x s =
     (case x of
        Str text \<Rightarrow>
          (case priv_infer b text None False s of
             Inl e \<Rightarrow> Inl e
           | Inr (r, s1) \<Rightarrow> Inr (Response r, s1))
      | Dialogs xs \<Rightarrow>
          (case infer_on_batch b xs s of
             Inl e \<Rightarrow> Inl e
           | Inr (rs, s1) \<Rightarrow> Inr (Responses rs, s1)))"

subsection \<open>A small configuration\<close>

text \<open>
  A bot with two actions, no embedder, an intent classifier with three classes, a slot
  filler that knows one word, and a tracker that keeps the slots in a dictionary. It gives
  the statements below concrete inputs: a dialog of two turns whose first turn supplies
  the database result \<open>{"x": 1}\<close>, and a third response without a context.
\<close>

definition demo_bot :: "(string pydict, string, int) bot" where
  "demo_bot =
     \<lparr> tokenizer_infer = (\<lambda>text. [text]),
       bow_encoder_infer = (\<lambda>tok. [flag (tok = ''hello''), flag (tok = ''italian'')]),
       embedder_infer = None,
       intent_classifier_infer =
         Some (\<lambda>tok. if tok = ''hello'' then [1, 0, 0] else [0, 1 / 2, 1 / 2]),
       slot_filler_infer =
         Some (\<lambda>tok. if tok = ''italian'' then [(''food'', ''italian'')] else []),
       tracker_update_state = (\<lambda>t slots. fold (\<lambda>(k, v). AList.update k v) slots t),
       tracker_infer = (\<lambda>t. [flag (has_key ''food'' t)]),
       tracker_get_state = (\<lambda>t. t),
       tracker_reset_state = (\<lambda>t. []),
       network_infer = (\<lambda>calls. [0, 1]),
       network_train_now = True,
       template_store = [(''api_call'', ''api_call #food''), (''bye'', ''goodbye'')],
       template_str = (\<lambda>tm. tm),
       generate_text = (\<lambda>tm slots. tm),
       py_str = (\<lambda>v. if v = 1 then ''1'' else ''0''),
       use_action_mask = True,
       num_epochs = 5,
       val_patience = 2 \<rparr>"

definition demo_state :: "(string pydict, int) bot_state" where
  "demo_state =
     \<lparr> tracker = [], db_result = None, prev_action = [0, 0], net_log = [] \<rparr>"

text \<open>The state in which a dialog that filled a slot and stored a database result leaves the bot.\<close>

definition demo_used_state :: "(string pydict, int) bot_state" where
  "demo_used_state =
     \<lparr> tracker = [(''food'', ''italian'')], db_result = Some [(''x'', 1)],
       prev_action = [0, 1], net_log = [Save] \<rparr>"

definition demo_contexts :: "int turn_context list" where
  "demo_contexts =
     [\<lparr> ctx_text = ''italian'', ctx_db_result = Some [(''x'', 1)], ctx_prev_resp_act = None \<rparr>,
      \<lparr> ctx_text = ''hello'', ctx_db_result = None, ctx_prev_resp_act = Some ''api_call'' \<rparr>]"

definition demo_responses :: "turn_response list" where
  "demo_responses =
     [\<lparr> resp_act = ''api_call'', resp_text = ''api_call italian'' \<rparr>,
      \<lparr> resp_act = ''bye'', resp_text = ''goodbye'' \<rparr>,
      \<lparr> resp_act = ''thanks'', resp_text = ''you are welcome'' \<rparr>]"

text \<open>
  Training data of one batch with that dialog, and validation accuracies that fall from
  the first epoch on: 0.5, 0.4, then 0.3.
\<close>

definition demo_tr_data :: "int batch list" where
  "demo_tr_data = [([demo_contexts], [demo_responses])]"

definition demo_accuracy :: "nat \<Rightarrow> real" where
  "demo_accuracy j = (if j = 0 then 1 / 2 else if j = 1 then 2 / 5 else 3 / 10)"

subsection \<open>Reading a fused feature vector and the loop of epochs\<close>

text \<open>
  The previous-action memory is the last segment of a feature vector, \<open>n_actions\<close> long,
  and the two context flags are the two entries before it.
\<close>

definition prev_action_segment :: "('t, 'tm, 'v) bot \<Rightarrow> real list \<Rightarrow> real list" where
  "prev_action_segment b features = drop (length features - n_actions b) features"

definition context_flags_segment :: "('t, 'tm, 'v) bot \<Rightarrow> real list \<Rightarrow> real list" where
  "context_flags_segment b features =
     take 2 (drop (length features - n_actions b - 2) features)"

text \<open>
  The length of a feature vector when the bag-of-words encoder, the embedder, the intent
  classifier and the tracker return vectors of the lengths given; an absent embedder or
  intent classifier counts for nothing.
\<close>

definition feature_length :: "('t, 'tm, 'v) bot \<Rightarrow> nat \<Rightarrow> nat \<Rightarrow> nat \<Rightarrow> nat \<Rightarrow> nat" where
  "feature_length b bow_dim emb_dim n_intents num_features =
     bow_dim
     + (case embedder_infer b of None \<Rightarrow> 0 | Some f \<Rightarrow> emb_dim)
     + (case intent_classifier_infer b of None \<Rightarrow> 0 | Some f \<Rightarrow> n_intents)
     + num_features + 2 + n_actions b"

text \<open>The features of the calls \<open>network.infer\<close> in a history, in order.\<close>

definition infer_features :: "net_call list \<Rightarrow> real list list" where
  "infer_features calls =
     concat (map (\<lambda>c. case c of Infer features m \<Rightarrow> [features] | _ \<Rightarrow> []) calls)"

text \<open>
  The patience counter and the best accuracy after \<open>k\<close> epochs of a loop that is not
  left before: the assignments of the first \<open>k\<close> epochs, from the initial values.
\<close>

definition patience_after :: "int \<Rightarrow> (nat \<Rightarrow> real) \<Rightarrow> nat \<Rightarrow> int \<times> real" where
  "patience_after patience valid_accuracy k =
     fold (\<lambda>j pb. patience_update patience (valid_accuracy j) pb) [0..<k] (patience, 0)"

section \<open>Properties\<close>

subsection \<open>Python primitives\<close>

lemma list_index_fails_iff: "list_index xs x = Inl e \<longleftrightarrow> e = ValueError \<and> x \<notin> set xs"
  by (induction xs) (auto split: sum.splits)

lemma list_index_Inr:
  "list_index xs x = Inr i \<Longrightarrow> i < length xs \<and> xs ! i = x \<and> x \<notin> set (take i xs)"
proof (induction xs arbitrary: i)
  case Nil
  then show ?case by simp
next
  case (Cons y ys)
  show ?case
  proof (cases "y = x")
    case True
    with Cons.prems show ?thesis by simp
  next
    case False
    with Cons.prems obtain j where j: "list_index ys x = Inr j" "i = Suc j"
      by (auto split: sum.splits)
    from Cons.IH [OF j(1)] j(2) False show ?thesis by simp
  qed
qed

lemma list_index_total: "x \<in> set xs \<Longrightarrow> \<exists>i. list_index xs x = Inr i"
  by (cases "list_index xs x") (auto simp: list_index_fails_iff)

lemma list_index_map_of:
  "list_index (map fst ps) k = Inr i \<Longrightarrow> map_of ps k = Some (snd (ps ! i))"
proof (induction ps arbitrary: i)
  case Nil
  then show ?case by simp
next
  case (Cons p ps)
  then show ?case by (cases p) (auto split: if_splits sum.splits)
qed

subsection \<open>Dialog state\<close>

text \<open>
  C6. After \<open>reset()\<close> the previous-action memory is the zero vector of length
  \<open>n_actions\<close>, the stored database result is \<open>None\<close>, the tracker is the one its own
  \<open>reset_state\<close> leaves, and the call \<open>reset_state\<close> has been made to the network, as
  the last call it has received.
\<close>

theorem reset_clears_dialog_state:
  "prev_action (reset b s) = replicate (n_actions b) 0
   \<and> length (prev_action (reset b s)) = n_actions b
   \<and> db_result (reset b s) = None
   \<and> tracker (reset b s) = tracker_reset_state b (tracker s)
   \<and> net_log (reset b s) = net_log s @ [ResetState]"
  by (simp add: reset_def)

subsection \<open>The action codec\<close>

lemma list_getitem_fails_iff:
  "list_getitem xs i = Inl e
     \<longleftrightarrow> e = IndexError \<and> (i < - int (length xs) \<or> int (length xs) \<le> i)"
  by (auto simp: list_getitem_def)

lemma length_templates [simp]: "length (templates b) = n_actions b"
  by (simp add: templates_def n_actions_def)

lemma length_actions [simp]: "length (actions b) = n_actions b"
  by (simp add: actions_def n_actions_def)

text \<open>
  C2, as the code has it. Encoding a label fails, with \<open>ValueError\<close>, exactly when the
  label is not in the action list. Decoding an index \<open>i\<close> fails, with \<open>IndexError\<close>,
  exactly when \<open>i < - n_actions\<close> or \<open>n_actions \<le> i\<close>: the template list is a Python
  list, and an index from \<open>- n_actions\<close> to \<open>-1\<close> counts from its end. For
  \<open>0 \<le> i < n_actions\<close> the template taken is the one at \<open>i\<close>, for
  \<open>- n_actions \<le> i < 0\<close> the one at \<open>i + n_actions\<close>; \<open>_decode_response\<close> returns its
  rendering against the slots.
\<close>

theorem action_codec_failures:
  "(encode_response b act = Inl ValueError) = (act \<notin> set (actions b))
   \<and> (\<exists>i. encode_response b act = Inr i) = (act \<in> set (actions b))
   \<and> (decode_template b i = Inl IndexError)
       = (i < - int (n_actions b) \<or> int (n_actions b) \<le> i)
   \<and> (decode_response b i s = Inl IndexError)
       = (i < - int (n_actions b) \<or> int (n_actions b) \<le> i)
   \<and> (0 \<le> i \<and> i < int (n_actions b) \<longrightarrow>
        decode_template b i = Inr (templates b ! nat i)
        \<and> decode_response b i s
            = Inr (generate_text b (templates b ! nat i) (response_slots b s)))
   \<and> (- int (n_actions b) \<le> i \<and> i < 0 \<longrightarrow>
        decode_template b i = Inr (templates b ! nat (i + int (n_actions b)))
        \<and> decode_response b i s
            = Inr (generate_text b (templates b ! nat (i + int (n_actions b)))
                     (response_slots b s)))"
proof -
  have enc_fail: "(encode_response b act = Inl ValueError) = (act \<notin> set (actions b))"
    by (simp add: encode_response_def list_index_fails_iff)
  have enc_ok: "(\<exists>i. encode_response b act = Inr i) = (act \<in> set (actions b))"
    unfolding encode_response_def
    using list_index_total [of act "actions b"] list_index_Inr [of "actions b" act]
    by (metis nth_mem)
  have dec_fail: "(decode_template b i = Inl IndexError)
       = (i < - int (n_actions b) \<or> int (n_actions b) \<le> i)"
    by (simp add: decode_template_def list_getitem_fails_iff)
  have resp_fail: "(decode_response b i s = Inl IndexError)
       = (i < - int (n_actions b) \<or> int (n_actions b) \<le> i)"
    by (auto simp: decode_response_def decode_template_def list_getitem_def)
  have pos: "0 \<le> i \<and> i < int (n_actions b) \<longrightarrow>
        decode_template b i = Inr (templates b ! nat i)
        \<and> decode_response b i s
            = Inr (generate_text b (templates b ! nat i) (response_slots b s))"
    by (simp add: decode_response_def decode_template_def list_getitem_def)
  have neg: "- int (n_actions b) \<le> i \<and> i < 0 \<longrightarrow>
        decode_template b i = Inr (templates b ! nat (i + int (n_actions b)))
        \<and> decode_response b i s
            = Inr (generate_text b (templates b ! nat (i + int (n_actions b)))
                     (response_slots b s))"
    by (simp add: decode_response_def decode_template_def list_getitem_def)
  from enc_fail enc_ok dec_fail resp_fail pos neg show ?thesis by blast
qed

text \<open>The statement at the two-action bot, for a known and an unknown label and five indices.\<close>

theorem action_codec_failures_witness:
  "encode_response demo_bot ''bye'' = Inr 1
   \<and> encode_response demo_bot ''thanks'' = Inl ValueError
   \<and> decode_template demo_bot 1 = Inr ''goodbye''
   \<and> decode_template demo_bot (- 1) = Inr ''goodbye''
   \<and> decode_template demo_bot (- 2) = Inr ''api_call #food''
   \<and> decode_template demo_bot 2 = Inl IndexError
   \<and> decode_template demo_bot (- 3) = Inl IndexError
   \<and> decode_response demo_bot (- 1) demo_state = Inr ''goodbye''"
  using action_codec_failures [of demo_bot "''bye''" 1 demo_state]
    action_codec_failures [of demo_bot "''thanks''" "- 1" demo_state]
    action_codec_failures [of demo_bot "''thanks''" "- 2" demo_state]
    action_codec_failures [of demo_bot "''thanks''" "2" demo_state]
    action_codec_failures [of demo_bot "''thanks''" "- 3" demo_state]
  by (simp add: demo_bot_def demo_state_def n_actions_def templates_def actions_def
      encode_response_def)

text \<open>
  C2 as the spec states it fails: with two actions the index \<open>-1\<close> lies outside
  \<open>[0, n_actions)\<close>, and decoding it does not fail, it takes the last template.
\<close>

theorem decode_negative_index_counterexample:
  "\<not> (isl (decode_template demo_bot (- 1))
        \<longleftrightarrow> \<not> (0 \<le> (- 1 :: int) \<and> (- 1 :: int) < int (n_actions demo_bot)))
   \<and> \<not> (isl (decode_response demo_bot (- 1) demo_state)
        \<longleftrightarrow> \<not> (0 \<le> (- 1 :: int) \<and> (- 1 :: int) < int (n_actions demo_bot)))"
  by (simp add: decode_response_def decode_template_def list_getitem_def templates_def
      n_actions_def demo_bot_def)

text \<open>
  C8. For a label of the action list, \<open>_encode_response\<close> returns an index below
  \<open>n_actions\<close>, the template that \<open>_decode_response\<close> takes at that index is the one the
  store associates with the label, and the response is that template rendered against
  the slots.
\<close>

theorem encode_decode_roundtrip:
  assumes "act \<in> set (actions b)"
  shows "\<exists>i tm. encode_response b act = Inr i
           \<and> i < n_actions b
           \<and> map_of (template_store b) act = Some tm
           \<and> decode_template b (int i) = Inr tm
           \<and> decode_response b (int i) s = Inr (generate_text b tm (response_slots b s))"
proof -
  from assms obtain i where i: "list_index (actions b) act = Inr i"
    using list_index_total by fastforce
  from list_index_Inr [OF i] have lt: "i < n_actions b" by simp
  from i have m: "map_of (template_store b) act = Some (snd (template_store b ! i))"
    unfolding actions_def by (rule list_index_map_of)
  have t: "templates b ! i = snd (template_store b ! i)"
    using lt by (simp add: templates_def n_actions_def)
  have d: "decode_template b (int i) = Inr (snd (template_store b ! i))"
    using lt t by (simp add: decode_template_def list_getitem_def)
  show ?thesis
    using i lt m d by (simp add: encode_response_def decode_response_def)
qed

theorem encode_decode_roundtrip_witness:
  "''bye'' \<in> set (actions demo_bot)
   \<and> encode_response demo_bot ''bye'' = Inr 1
   \<and> decode_template demo_bot 1 = Inr ''goodbye''"
  using encode_decode_roundtrip [of "''bye''" demo_bot demo_state]
  by (simp add: demo_bot_def actions_def encode_response_def decode_template_def
      list_getitem_def templates_def)

subsection \<open>The action mask\<close>

text \<open>
  Every match of the pattern is the text \<open>#{}\<close> itself, so the inner loop of
  \<open>_action_mask\<close> tests one key only, whatever slots the template names.
\<close>

lemma findall_hash_braces_elems: "e \<in> set (findall_hash_braces s) \<Longrightarrow> e = ''#{}''"
  by (induction s rule: findall_hash_braces.induct) (auto split: if_splits)

lemma length_mask_entities [simp]: "length (mask_entities es st db a m) = length m"
  by (induction es arbitrary: m) auto

lemma mask_entities_eq:
  "mask_entities es st db a m =
     (if \<exists>e \<in> set es. \<not> has_key e st \<and> \<not> has_key e db then m[a := 0] else m)"
  by (induction es arbitrary: m) auto

lemma mask_entities_findall:
  "mask_entities (findall_hash_braces t) st db a m =
     (if findall_hash_braces t \<noteq> [] \<and> \<not> has_key ''#{}'' st \<and> \<not> has_key ''#{}'' db
      then m[a := 0] else m)"
proof (cases "findall_hash_braces t")
  case Nil
  then show ?thesis by simp
next
  case (Cons e es)
  then have "e \<in> set (findall_hash_braces t)" by simp
  then have e: "e = ''#{}''" by (rule findall_hash_braces_elems)
  have "\<forall>x \<in> set (findall_hash_braces t). x = ''#{}''"
    using findall_hash_braces_elems by blast
  then have "(\<exists>x \<in> set (findall_hash_braces t). \<not> has_key x st \<and> \<not> has_key x db)
      \<longleftrightarrow> (\<not> has_key ''#{}'' st \<and> \<not> has_key ''#{}'' db)"
    using Cons e by auto
  then show ?thesis using Cons by (simp add: mask_entities_eq del: mask_entities.simps)
qed

lemma fold_mask_upt:
  "length m = n \<Longrightarrow> k \<le> n \<Longrightarrow>
   fold (\<lambda>a m. if P a then m[a := (0::real)] else m) [0..<k] m
     = map (\<lambda>a. if a < k \<and> P a then 0 else m ! a) [0..<n]"
proof (induction k)
  case 0
  then show ?case by (auto intro: nth_equalityI)
next
  case (Suc k)
  then have IH: "fold (\<lambda>a m. if P a then m[a := 0] else m) [0..<k] m
     = map (\<lambda>a. if a < k \<and> P a then 0 else m ! a) [0..<n]" by simp
  show ?case
    using Suc.prems
    by (auto simp: IH nth_list_update less_Suc_eq intro!: nth_equalityI)
qed

lemma action_mask_length: "length (action_mask b s) = n_actions b"
proof -
  have "\<And>m. length (fold (\<lambda>a_id m.
                mask_entities (findall_hash_braces (template_str b (templates b ! a_id)))
                  (tracker_get_state b (tracker s))
                  (case db_result s of None \<Rightarrow> [] | Some d \<Rightarrow> d) a_id m) xs m) = length m" for xs
    by (induction xs) auto
  then show ?thesis by (simp add: action_mask_def)
qed

lemma action_mask_entry:
  assumes "a < n_actions b"
  shows "action_mask b s ! a =
     (if use_action_mask b
         \<and> findall_hash_braces (template_str b (templates b ! a)) \<noteq> []
         \<and> \<not> has_key ''#{}'' (tracker_get_state b (tracker s))
         \<and> \<not> has_key ''#{}'' (case db_result s of None \<Rightarrow> [] | Some d \<Rightarrow> d)
      then 0 else 1)"
proof (cases "use_action_mask b")
  case False
  with assms show ?thesis by (simp add: action_mask_def)
next
  case True
  let ?P = "\<lambda>a. findall_hash_braces (template_str b (templates b ! a)) \<noteq> []
         \<and> \<not> has_key ''#{}'' (tracker_get_state b (tracker s))
         \<and> \<not> has_key ''#{}'' (case db_result s of None \<Rightarrow> [] | Some d \<Rightarrow> d)"
  have step: "(\<lambda>a_id m.
                mask_entities (findall_hash_braces (template_str b (templates b ! a_id)))
                  (tracker_get_state b (tracker s))
                  (case db_result s of None \<Rightarrow> [] | Some d \<Rightarrow> d) a_id m)
      = (\<lambda>a m. if ?P a then m[a := 0] else m)"
    by (intro ext) (rule mask_entities_findall)
  have "action_mask b s
      = fold (\<lambda>a m. if ?P a then m[a := 0] else m) [0..<n_actions b]
          (replicate (n_actions b) 1)"
    using True unfolding action_mask_def step by simp
  also have "\<dots> = map (\<lambda>a. if a < n_actions b \<and> ?P a then 0
                          else replicate (n_actions b) 1 ! a) [0..<n_actions b]"
    by (rule fold_mask_upt) simp_all
  finally show ?thesis using assms True by simp
qed

text \<open>
  C1 does not hold of the code. With masking enabled, the template \<open>api_call #food\<close>
  and neither \<open>food\<close> nor \<open>#food\<close> among the tracker's slots or in the database
  result (there is none), the claim gives the action the entry 0; \<open>_action_mask\<close>
  gives it 1, because \<open>re.findall('#{}', tmpl)\<close> finds no placeholder in the template.
  The lemmas above give the parts of the claim that do hold: the mask has \<open>n_actions\<close>
  entries, all of them 1 when masking is disabled and 1 for a template without the text
  \<open>#{}\<close>.
\<close>

theorem action_mask_ignores_slot_names:
  "use_action_mask demo_bot
   \<and> template_str demo_bot (templates demo_bot ! 0) = ''api_call #food''
   \<and> \<not> has_key ''food'' (tracker_get_state demo_bot (tracker demo_state))
   \<and> \<not> has_key ''#food'' (tracker_get_state demo_bot (tracker demo_state))
   \<and> db_result demo_state = None
   \<and> action_mask demo_bot demo_state = [1, 1]"
  by (simp add: demo_bot_def demo_state_def action_mask_def templates_def n_actions_def
      has_key_def upt_rec)

subsection \<open>One turn of a training dialog\<close>

lemma encode_context_state:
  "db_result (snd (encode_context b c db s)) = db_result s"
  "prev_action (snd (encode_context b c db s)) = prev_action s"
  "net_log (snd (encode_context b c db s)) = net_log s"
  "tracker (snd (encode_context b c db s)) =
     (case slot_filler_infer b of
        None \<Rightarrow> tracker s
      | Some f \<Rightarrow> tracker_update_state b (tracker s) (f (tokenized b c)))"
  by (simp_all add: encode_context_def Let_def split: option.splits)

lemma encode_context_features:
  "fst (encode_context b c db s) =
     bow_encoder_infer b (tokenized b c)
     @ (case embedder_infer b of None \<Rightarrow> [] | Some f \<Rightarrow> f (tokenized b c))
     @ (case intent_classifier_infer b of None \<Rightarrow> [] | Some f \<Rightarrow> f (tokenized b c))
     @ tracker_infer b (tracker (snd (encode_context b c db s)))
     @ [flag (db = Some []), flag (db_result s = Some [])]
     @ prev_action s"
  by (simp add: encode_context_def Let_def split: option.splits)

lemma prev_action_segment_encode:
  "length (prev_action s) = n_actions b \<Longrightarrow>
   prev_action_segment b (fst (encode_context b c db s)) = prev_action s"
  by (simp add: prev_action_segment_def encode_context_features)

lemma context_flags_segment_encode:
  "length (prev_action s) = n_actions b \<Longrightarrow>
   context_flags_segment b (fst (encode_context b c db s))
     = [flag (db = Some []), flag (db_result s = Some [])]"
  by (simp add: context_flags_segment_def encode_context_features)

lemma set_one_hot_eq:
  "a < length pa \<Longrightarrow> set_one_hot a pa = Inr (one_hot (length pa) a)"
  by (simp add: set_one_hot_def one_hot_def map_replicate_const)

lemma length_one_hot [simp]: "length (one_hot n a) = n"
  by (simp add: one_hot_def)

lemma store_db_result_fields [simp]:
  "db_result (store_db_result db s) = (case db of None \<Rightarrow> db_result s | Some d \<Rightarrow> Some d)"
  "prev_action (store_db_result db s) = prev_action s"
  "tracker (store_db_result db s) = tracker s"
  "net_log (store_db_result db s) = net_log s"
  by (simp_all add: store_db_result_def split: option.splits)

lemma encode_response_known:
  "act \<in> set (actions b) \<Longrightarrow> \<exists>a < n_actions b. encode_response b act = Inr a"
  using list_index_total [of act "actions b"] list_index_Inr [of "actions b" act]
  unfolding encode_response_def by fastforce

lemma train_turn_Inr:
  assumes "encode_response b (resp_act (snd cr)) = Inr a"
    and "a < n_actions b" and "length (prev_action s) = n_actions b"
  shows "\<exists>m s'. train_turn b cr s
            = Inr ((fst (encode_context b (ctx_text (fst cr)) (ctx_db_result (fst cr)) s), a, m), s')
          \<and> prev_action s' = one_hot (n_actions b) a
          \<and> db_result s' = (case ctx_db_result (fst cr) of
                               None \<Rightarrow> db_result s | Some d \<Rightarrow> Some d)
          \<and> net_log s' = net_log s
          \<and> length m = n_actions b"
  using assms
  by (simp add: train_turn_def Let_def split_beta set_one_hot_eq encode_context_state
      action_mask_length split: option.splits)

lemma train_turn_InrD:
  assumes "train_turn b cr s = Inr ((f, a, m), s')"
  shows "f = fst (encode_context b (ctx_text (fst cr)) (ctx_db_result (fst cr)) s)
       \<and> encode_response b (resp_act (snd cr)) = Inr a
       \<and> set_one_hot a (prev_action s) = Inr (prev_action s')
       \<and> db_result s' = (case ctx_db_result (fst cr) of
                               None \<Rightarrow> db_result s | Some d \<Rightarrow> Some d)
       \<and> net_log s' = net_log s"
  using assms
  by (auto simp: train_turn_def Let_def split_beta encode_context_state
      split: sum.splits option.splits)

subsection \<open>The turns of a training dialog\<close>

lemma set_one_hot_length: "set_one_hot a pa = Inr pa' \<Longrightarrow> length pa' = length pa"
  by (auto simp: set_one_hot_def split: if_splits)

lemma dialog_turns_run:
  assumes "\<forall>cr \<in> set turns. resp_act (snd cr) \<in> set (actions b)"
    and "length (prev_action s) = n_actions b"
  shows "\<exists>fs as ms s'. dialog_turns b turns s = Inr ((fs, as, ms), s')
     \<and> length fs = length turns \<and> length as = length turns \<and> length ms = length turns
     \<and> length (prev_action s') = n_actions b
     \<and> net_log s' = net_log s
     \<and> (\<forall>t < length turns.
           encode_response b (resp_act (snd (turns ! t))) = Inr (as ! t)
           \<and> as ! t < n_actions b
           \<and> prev_action_segment b (fs ! t)
               = (if t = 0 then prev_action s else one_hot (n_actions b) (as ! (t - 1))))
     \<and> (turns \<noteq> [] \<longrightarrow> prev_action s' = one_hot (n_actions b) (last as))"
  using assms
proof (induction turns arbitrary: s)
  case Nil
  then show ?case by simp
next
  case (Cons cr turns)
  from Cons.prems(1) obtain a where a: "a < n_actions b"
    "encode_response b (resp_act (snd cr)) = Inr a"
    using encode_response_known [of "resp_act (snd cr)" b] by auto
  from train_turn_Inr [OF a(2) a(1) Cons.prems(2)] obtain m s1 where
    t: "train_turn b cr s
          = Inr ((fst (encode_context b (ctx_text (fst cr)) (ctx_db_result (fst cr)) s), a, m), s1)"
    and s1: "prev_action s1 = one_hot (n_actions b) a" "net_log s1 = net_log s"
    by blast
  have len1: "length (prev_action s1) = n_actions b" using s1 by simp
  from Cons.prems(1) have "\<forall>cr \<in> set turns. resp_act (snd cr) \<in> set (actions b)" by simp
  from Cons.IH [OF this len1] obtain fs as ms s' where
    r: "dialog_turns b turns s1 = Inr ((fs, as, ms), s')"
    and l: "length fs = length turns" "length as = length turns" "length ms = length turns"
      "length (prev_action s') = n_actions b" "net_log s' = net_log s1"
    and e: "\<forall>t < length turns.
           encode_response b (resp_act (snd (turns ! t))) = Inr (as ! t)
           \<and> as ! t < n_actions b
           \<and> prev_action_segment b (fs ! t)
               = (if t = 0 then prev_action s1 else one_hot (n_actions b) (as ! (t - 1)))"
    and f: "turns \<noteq> [] \<longrightarrow> prev_action s' = one_hot (n_actions b) (last as)"
    by blast
  let ?f = "fst (encode_context b (ctx_text (fst cr)) (ctx_db_result (fst cr)) s)"
  have run: "dialog_turns b (cr # turns) s = Inr ((?f # fs, a # as, m # ms), s')"
    using t r by simp
  have seg0: "prev_action_segment b ?f = prev_action s"
    using Cons.prems(2) by (rule prev_action_segment_encode)
  have each: "\<forall>t < length (cr # turns).
           encode_response b (resp_act (snd ((cr # turns) ! t))) = Inr ((a # as) ! t)
           \<and> (a # as) ! t < n_actions b
           \<and> prev_action_segment b ((?f # fs) ! t)
               = (if t = 0 then prev_action s else one_hot (n_actions b) ((a # as) ! (t - 1)))"
  proof (intro allI impI)
    fix t assume "t < length (cr # turns)"
    show "encode_response b (resp_act (snd ((cr # turns) ! t))) = Inr ((a # as) ! t)
           \<and> (a # as) ! t < n_actions b
           \<and> prev_action_segment b ((?f # fs) ! t)
               = (if t = 0 then prev_action s else one_hot (n_actions b) ((a # as) ! (t - 1)))"
    proof (cases t)
      case 0
      then show ?thesis using a seg0 by simp
    next
      case (Suc u)
      with \<open>t < length (cr # turns)\<close> have u: "u < length turns" by simp
      from e u have "encode_response b (resp_act (snd (turns ! u))) = Inr (as ! u)"
        "as ! u < n_actions b"
        "prev_action_segment b (fs ! u)
               = (if u = 0 then prev_action s1 else one_hot (n_actions b) (as ! (u - 1)))"
        by auto
      then show ?thesis using Suc s1 by (cases u) auto
    qed
  qed
  have fin: "prev_action s' = one_hot (n_actions b) (last (a # as))"
  proof (cases turns)
    case Nil
    with r have "s' = s1" "as = []" by simp_all
    then show ?thesis using s1(1) by simp
  next
    case (Cons x xs)
    with l(2) have "as \<noteq> []" by auto
    with f Cons show ?thesis by simp
  qed
  have lens: "length (?f # fs) = length (cr # turns)" "length (a # as) = length (cr # turns)"
    "length (m # ms) = length (cr # turns)" "net_log s' = net_log s"
    using l s1 by simp_all
  have fin': "cr # turns \<noteq> [] \<longrightarrow> prev_action s' = one_hot (n_actions b) (last (a # as))"
    using fin by blast
  from run lens l(4) each fin' show ?case by blast
qed

lemma dialog_turns_InrD:
  assumes "dialog_turns b turns s = Inr ((fs, as, ms), s')"
  shows "length fs = length turns \<and> length as = length turns \<and> length ms = length turns
     \<and> length (prev_action s') = length (prev_action s)
     \<and> net_log s' = net_log s"
  using assms
proof (induction turns arbitrary: s fs as ms)
  case Nil
  then show ?case by simp
next
  case (Cons cr turns)
  from Cons.prems obtain f a m s1 fs' as' ms' where
    t: "train_turn b cr s = Inr ((f, a, m), s1)"
    and r: "dialog_turns b turns s1 = Inr ((fs', as', ms'), s')"
    and eq: "fs = f # fs'" "as = a # as'" "ms = m # ms'"
    by (auto split: sum.splits)
  from train_turn_InrD [OF t] have "length (prev_action s1) = length (prev_action s)"
    "net_log s1 = net_log s"
    by (auto dest: set_one_hot_length)
  with Cons.IH [OF r] eq show ?case by simp
qed

lemma reset_fields [simp]:
  "prev_action (reset b s) = replicate (n_actions b) 0"
  "db_result (reset b s) = None"
  "net_log (reset b s) = net_log s @ [ResetState]"
  "tracker (reset b s) = tracker_reset_state b (tracker s)"
  by (simp_all add: reset_def)

text \<open>
  C3. In a training dialog whose ground-truth labels are all in the action list, the loop
  over the turns, started by \<open>reset()\<close>, does not fail; it is the loop of \<open>train\<close> and
  of \<open>train_on_batch\<close>, which pass its lists to \<open>network.train\<close>. For every turn \<open>t\<close>,
  with \<open>as ! t\<close> the index of its ground-truth label: after the turns up to \<open>t\<close> the
  previous-action memory is the one-hot vector of \<open>as ! t\<close>; the previous-action segment
  of the features of turn \<open>t\<close> is the zero vector for the first turn and the one-hot
  vector of \<open>as ! (t - 1)\<close> for a later one.
\<close>

theorem teacher_forcing:
  assumes "\<forall>cr \<in> set turns. resp_act (snd cr) \<in> set (actions b)"
  shows "\<exists>fs as ms s'.
       dialog_turns b turns (reset b s) = Inr ((fs, as, ms), s')
     \<and> train_dialog b (map fst turns, map snd turns) s
         = Inr (s'\<lparr> net_log := net_log s' @ [Train fs as ms] \<rparr>)
     \<and> length fs = length turns \<and> length as = length turns
     \<and> (\<forall>t < length turns.
           encode_response b (resp_act (snd (turns ! t))) = Inr (as ! t)
           \<and> (\<exists>fs' as' ms' st.
                 dialog_turns b (take (Suc t) turns) (reset b s) = Inr ((fs', as', ms'), st)
                 \<and> prev_action st = one_hot (n_actions b) (as ! t))
           \<and> prev_action_segment b (fs ! t)
               = (if t = 0 then replicate (n_actions b) 0
                  else one_hot (n_actions b) (as ! (t - 1))))"
proof -
  have len: "length (prev_action (reset b s)) = n_actions b" by simp
  from dialog_turns_run [OF assms len] obtain fs as ms s' where
    r: "dialog_turns b turns (reset b s) = Inr ((fs, as, ms), s')"
    and l: "length fs = length turns" "length as = length turns"
    and e: "\<forall>t < length turns.
           encode_response b (resp_act (snd (turns ! t))) = Inr (as ! t)
           \<and> as ! t < n_actions b
           \<and> prev_action_segment b (fs ! t)
               = (if t = 0 then prev_action (reset b s) else one_hot (n_actions b) (as ! (t - 1)))"
    by blast
  have td: "train_dialog b (map fst turns, map snd turns) s
         = Inr (s'\<lparr> net_log := net_log s' @ [Train fs as ms] \<rparr>)"
    using r by (simp add: train_dialog_def zip_map_fst_snd)
  have pre: "\<exists>fs' as' ms' st.
                 dialog_turns b (take (Suc t) turns) (reset b s) = Inr ((fs', as', ms'), st)
                 \<and> prev_action st = one_hot (n_actions b) (as ! t)"
    if t: "t < length turns" for t
  proof -
    have sub: "\<forall>cr \<in> set (take (Suc t) turns). resp_act (snd cr) \<in> set (actions b)"
      using assms by (meson in_set_takeD)
    from dialog_turns_run [OF sub len] obtain fs' as' ms' st where
      r': "dialog_turns b (take (Suc t) turns) (reset b s) = Inr ((fs', as', ms'), st)"
      and l': "length as' = length (take (Suc t) turns)"
      and e': "\<forall>u < length (take (Suc t) turns).
           encode_response b (resp_act (snd (take (Suc t) turns ! u))) = Inr (as' ! u)"
      and f': "take (Suc t) turns \<noteq> [] \<longrightarrow> prev_action st = one_hot (n_actions b) (last as')"
      by blast
    from t have lt: "length (take (Suc t) turns) = Suc t" by simp
    with l' have la: "length as' = Suc t" by simp
    then have "as' \<noteq> []" by auto
    then have last: "last as' = as' ! t" using la by (simp add: last_conv_nth)
    from e' lt have "encode_response b (resp_act (snd (take (Suc t) turns ! t))) = Inr (as' ! t)"
      by simp
    then have "encode_response b (resp_act (snd (turns ! t))) = Inr (as' ! t)" by simp
    moreover from e t have "encode_response b (resp_act (snd (turns ! t))) = Inr (as ! t)"
      by simp
    ultimately have "as' ! t = as ! t" by simp
    moreover from f' lt have "prev_action st = one_hot (n_actions b) (last as')" by auto
    ultimately show ?thesis using r' last by auto
  qed
  have each: "\<forall>t < length turns.
           encode_response b (resp_act (snd (turns ! t))) = Inr (as ! t)
           \<and> (\<exists>fs' as' ms' st.
                 dialog_turns b (take (Suc t) turns) (reset b s) = Inr ((fs', as', ms'), st)
                 \<and> prev_action st = one_hot (n_actions b) (as ! t))
           \<and> prev_action_segment b (fs ! t)
               = (if t = 0 then replicate (n_actions b) 0
                  else one_hot (n_actions b) (as ! (t - 1)))"
    using e pre by simp
  from r td l each show ?thesis by blast
qed

lemma demo_n_actions: "n_actions demo_bot = 2"
  by (simp add: n_actions_def demo_bot_def)

lemma demo_labels:
  "\<forall>cr \<in> set (zip demo_contexts demo_responses). resp_act (snd cr) \<in> set (actions demo_bot)"
  by (simp add: demo_contexts_def demo_responses_def actions_def demo_bot_def)

lemma demo_encode:
  "encode_response demo_bot ''api_call'' = Inr 0" "encode_response demo_bot ''bye'' = Inr 1"
  by (simp_all add: encode_response_def actions_def demo_bot_def)

text \<open>
  The statement at the two turns of the demonstration dialog: the labels \<open>api_call\<close> and
  \<open>bye\<close> have the indices 0 and 1, the first turn reads \<open>[0, 0]\<close> and the second
  \<open>[1, 0]\<close>.
\<close>

theorem teacher_forcing_witness:
  "resp_act (snd (zip demo_contexts demo_responses ! 0)) \<in> set (actions demo_bot)
   \<and> resp_act (snd (zip demo_contexts demo_responses ! 1)) \<in> set (actions demo_bot)
   \<and> (\<exists>fs as ms s'.
         dialog_turns demo_bot (zip demo_contexts demo_responses) (reset demo_bot demo_state)
           = Inr ((fs, as, ms), s')
       \<and> as ! 0 = 0 \<and> as ! 1 = 1
       \<and> prev_action_segment demo_bot (fs ! 0) = [0, 0]
       \<and> prev_action_segment demo_bot (fs ! 1) = [1, 0])"
proof -
  let ?turns = "zip demo_contexts demo_responses"
  have len: "length ?turns = 2" by (simp add: demo_contexts_def demo_responses_def)
  have t0: "resp_act (snd (?turns ! 0)) = ''api_call''"
    and t1: "resp_act (snd (?turns ! 1)) = ''bye''"
    by (simp_all add: demo_contexts_def demo_responses_def)
  from teacher_forcing [OF demo_labels, of demo_state] obtain fs as ms s' where
    r: "dialog_turns demo_bot ?turns (reset demo_bot demo_state) = Inr ((fs, as, ms), s')"
    and e: "\<forall>t < length ?turns.
           encode_response demo_bot (resp_act (snd (?turns ! t))) = Inr (as ! t)
           \<and> (\<exists>fs' as' ms' st.
                 dialog_turns demo_bot (take (Suc t) ?turns) (reset demo_bot demo_state)
                   = Inr ((fs', as', ms'), st)
                 \<and> prev_action st = one_hot (n_actions demo_bot) (as ! t))
           \<and> prev_action_segment demo_bot (fs ! t)
               = (if t = 0 then replicate (n_actions demo_bot) 0
                  else one_hot (n_actions demo_bot) (as ! (t - 1)))"
    by blast
  have lt0: "0 < length ?turns" and lt1: "1 < length ?turns" using len by simp_all
  note at0 = e [rule_format, OF lt0] and at1 = e [rule_format, OF lt1]
  from at0 have e0: "encode_response demo_bot (resp_act (snd (?turns ! 0))) = Inr (as ! 0)"
    and g0: "prev_action_segment demo_bot (fs ! 0) = replicate (n_actions demo_bot) 0"
    by simp_all
  from at1 have e1: "encode_response demo_bot (resp_act (snd (?turns ! 1))) = Inr (as ! 1)"
    and g1: "prev_action_segment demo_bot (fs ! 1) = one_hot (n_actions demo_bot) (as ! 0)"
    by simp_all
  from e0 t0 demo_encode have a0: "as ! 0 = 0" by simp
  from e1 t1 demo_encode have a1: "as ! 1 = 1" by simp
  have s0: "prev_action_segment demo_bot (fs ! 0) = [0, 0]"
    using g0 by (simp add: demo_n_actions numeral_2_eq_2)
  have s1: "prev_action_segment demo_bot (fs ! 1) = [1, 0]"
    using g1 a0 by (simp add: demo_n_actions one_hot_def numeral_2_eq_2)
  from r a0 a1 s0 s1 t0 t1 show ?thesis
    by (auto simp: actions_def demo_bot_def)
qed

subsection \<open>The stored database result\<close>

lemma priv_infer_InrD:
  assumes "priv_infer b c db prob s = Inr (r, s')"
  shows "net_log s' = net_log s
            @ [Infer (fst (encode_context b c db s))
                 (action_mask b (snd (encode_context b c db s)))]"
    and "db_result s' = (case db of None \<Rightarrow> db_result s | Some d \<Rightarrow> Some d)"
    and "tracker s' = tracker (snd (encode_context b c db s))"
    and "\<not> prob \<Longrightarrow> length (prev_action s') = length (prev_action s)"
  using assms
  by (auto simp: priv_infer_def Let_def split_beta encode_context_state
      split: sum.splits option.splits if_splits dest: set_one_hot_length)

lemma priv_infer_flags:
  assumes "priv_infer b c db prob s = Inr (r, s')"
    and "length (prev_action s) = n_actions b"
  shows "\<exists>f m. net_log s' = net_log s @ [Infer f m]
           \<and> context_flags_segment b f = [flag (db = Some []), flag (db_result s = Some [])]"
  using priv_infer_InrD(1) [OF assms(1)] assms(2)
  by (simp add: context_flags_segment_encode)

lemma argmax_from_less:
  "best_i < i \<Longrightarrow> argmax_from xs i best_i best_v < i + length xs"
proof (induction xs arbitrary: i best_i best_v)
  case Nil
  then show ?case by simp
next
  case (Cons x xs)
  have a: "argmax_from xs (Suc i) i x < Suc i + length xs"
    by (rule Cons.IH) simp
  have "best_i < Suc i" using Cons.prems by simp
  then have b: "argmax_from xs (Suc i) best_i best_v < Suc i + length xs"
    by (rule Cons.IH)
  from a b show ?case by simp
qed

lemma np_argmax_less: "xs \<noteq> [] \<Longrightarrow> \<exists>p < length xs. np_argmax xs = Inr p"
  using argmax_from_less [of 0 1]
  by (cases xs) (auto simp: np_argmax_def)

lemma priv_infer_returns:
  assumes net: "\<forall>calls. length (network_infer b calls) = n_actions b"
    and pos: "0 < n_actions b"
    and len: "length (prev_action s) = n_actions b"
  shows "\<exists>r s'. priv_infer b c db False s = Inr (r, s')"
proof -
  let ?s1 = "snd (encode_context b c db s)"
  let ?s2 = "?s1\<lparr> net_log := net_log ?s1
               @ [Infer (fst (encode_context b c db s)) (action_mask b ?s1)] \<rparr>"
  let ?probs = "network_infer b (net_log ?s2)"
  from net pos have "?probs \<noteq> []" by (metis length_greater_0_conv)
  from np_argmax_less [OF this] net obtain p where
    p: "p < n_actions b" "np_argmax ?probs = Inr p"
    by auto
  have l3: "length (prev_action (store_db_result db ?s2)) = n_actions b"
    using len by (simp add: encode_context_state)
  with p(1) have oh: "set_one_hot p (prev_action (store_db_result db ?s2))
                        = Inr (one_hot (n_actions b) p)"
    by (simp add: set_one_hot_eq)
  have dec: "\<exists>t. decode_response b (int p) st = Inr t" for st :: "('a, 'c) bot_state"
    using p(1) by (simp add: decode_response_def decode_template_def list_getitem_def)
  then obtain t where t: "decode_response b (int p)
       ((store_db_result db ?s2)\<lparr> prev_action := one_hot (n_actions b) p \<rparr>) = Inr t"
    by blast
  show ?thesis
    using p(2) oh t by (simp add: priv_infer_def Let_def split_beta)
qed

lemma infer_turns_Cons_InrD:
  assumes "infer_turns b (c # cs) s = Inr (rs, s')"
  shows "\<exists>s1 r s2 res.
       priv_infer b (ctx_text c) (ctx_db_result c) False s1 = Inr (r, s2)
     \<and> infer_turns b cs s2 = Inr (res, s') \<and> rs = r # res
     \<and> db_result s1 = db_result s \<and> net_log s1 = net_log s \<and> tracker s1 = tracker s
     \<and> length (prev_action s1) = length (prev_action s)"
proof (cases "ctx_prev_resp_act c")
  case None
  with assms obtain r s2 res where
    "priv_infer b (ctx_text c) (ctx_db_result c) False s = Inr (r, s2)"
    "infer_turns b cs s2 = Inr (res, s')" "rs = r # res"
    by (auto split: sum.splits)
  then show ?thesis by blast
next
  case (Some act)
  with assms obtain a pa r s2 res where
    h: "encode_response b act = Inr a" "set_one_hot a (prev_action s) = Inr pa"
      "priv_infer b (ctx_text c) (ctx_db_result c) False (s\<lparr> prev_action := pa \<rparr>)
         = Inr (r, s2)"
      "infer_turns b cs s2 = Inr (res, s')" "rs = r # res"
    by (auto split: sum.splits)
  from set_one_hot_length [OF h(2)]
  have "length (prev_action (s\<lparr> prev_action := pa \<rparr>)) = length (prev_action s)" by simp
  moreover have "db_result (s\<lparr> prev_action := pa \<rparr>) = db_result s"
    "net_log (s\<lparr> prev_action := pa \<rparr>) = net_log s"
    "tracker (s\<lparr> prev_action := pa \<rparr>) = tracker s"
    by simp_all
  ultimately show ?thesis using h(3,4,5) by blast
qed

lemma infer_turns_Cons_returns:
  assumes known: "\<forall>act. ctx_prev_resp_act c = Some act \<longrightarrow> act \<in> set (actions b)"
    and net: "\<forall>calls. length (network_infer b calls) = n_actions b"
    and pos: "0 < n_actions b"
    and len: "length (prev_action s) = n_actions b"
  shows "\<exists>r s2. length (prev_action s2) = n_actions b
     \<and> infer_turns b (c # cs) s
         = (case infer_turns b cs s2 of
              Inl e \<Rightarrow> Inl e | Inr (res, s3) \<Rightarrow> Inr (r # res, s3))"
proof (cases "ctx_prev_resp_act c")
  case None
  from priv_infer_returns [OF net pos len] obtain r s2 where
    p: "priv_infer b (ctx_text c) (ctx_db_result c) False s = Inr (r, s2)"
    by blast
  from priv_infer_InrD(4) [OF p] len have "length (prev_action s2) = n_actions b" by simp
  then show ?thesis using None p by auto
next
  case (Some act)
  with known have "act \<in> set (actions b)" by simp
  from encode_response_known [OF this] obtain a where
    a: "a < n_actions b" "encode_response b act = Inr a"
    by blast
  let ?s1 = "s\<lparr> prev_action := one_hot (n_actions b) a \<rparr>"
  have oh: "set_one_hot a (prev_action s) = Inr (one_hot (n_actions b) a)"
    using a(1) len by (simp add: set_one_hot_eq)
  have len1: "length (prev_action ?s1) = n_actions b" by simp
  from priv_infer_returns [OF net pos len1] obtain r s2 where
    p: "priv_infer b (ctx_text c) (ctx_db_result c) False ?s1 = Inr (r, s2)"
    by blast
  from priv_infer_InrD(4) [OF p] have "length (prev_action s2) = n_actions b" by simp
  then show ?thesis using Some a(2) oh p by auto
qed

lemma infer_dialog_sticky:
  assumes run: "infer_dialog b [c1, c2] s0 = Inr (rs, s3)"
    and d: "d \<noteq> []" "ctx_db_result c1 = Some d" "ctx_db_result c2 = None"
  shows "\<exists>f1 m1 f2 m2.
       net_log s3 = net_log s0 @ [ResetState, Infer f1 m1, Infer f2 m2]
     \<and> context_flags_segment b f1 = [0, 0]
     \<and> context_flags_segment b f2 = [0, 0]
     \<and> db_result s3 = Some d"
proof -
  from run have r0: "infer_turns b [c1, c2] (reset b s0) = Inr (rs, s3)"
    by (simp add: infer_dialog_def)
  from infer_turns_Cons_InrD [OF r0] obtain s1 r1 s2 res where
    p1: "priv_infer b (ctx_text c1) (ctx_db_result c1) False s1 = Inr (r1, s2)"
    and r1: "infer_turns b [c2] s2 = Inr (res, s3)"
    and s1: "db_result s1 = db_result (reset b s0)" "net_log s1 = net_log (reset b s0)"
      "length (prev_action s1) = length (prev_action (reset b s0))"
    by blast
  from infer_turns_Cons_InrD [OF r1] obtain s2' r2 s3' res' where
    p2: "priv_infer b (ctx_text c2) (ctx_db_result c2) False s2' = Inr (r2, s3')"
    and r2: "infer_turns b [] s3' = Inr (res', s3)"
    and s2': "db_result s2' = db_result s2" "net_log s2' = net_log s2"
      "length (prev_action s2') = length (prev_action s2)"
    by blast
  from r2 have e3: "s3' = s3" by simp
  have n1: "length (prev_action s1) = n_actions b" using s1(3) by simp
  from priv_infer_InrD(4) [OF p1] n1 have n2: "length (prev_action s2) = n_actions b" by simp
  with s2'(3) have n2': "length (prev_action s2') = n_actions b" by simp
  from priv_infer_flags [OF p1 n1] obtain f1 m1 where
    f1: "net_log s2 = net_log s1 @ [Infer f1 m1]"
      "context_flags_segment b f1
         = [flag (ctx_db_result c1 = Some []), flag (db_result s1 = Some [])]"
    by blast
  from priv_infer_flags [OF p2 n2'] obtain f2 m2 where
    f2: "net_log s3' = net_log s2' @ [Infer f2 m2]"
      "context_flags_segment b f2
         = [flag (ctx_db_result c2 = Some []), flag (db_result s2' = Some [])]"
    by blast
  from priv_infer_InrD(2) [OF p1] d have db2: "db_result s2 = Some d" by simp
  from priv_infer_InrD(2) [OF p2] d s2'(1) db2 e3 have db3: "db_result s3 = Some d" by simp
  have log: "net_log s3 = net_log s0 @ [ResetState, Infer f1 m1, Infer f2 m2]"
    using f1(1) f2(1) s1(2) s2'(2) e3 by simp
  have fl1: "context_flags_segment b f1 = [0, 0]"
    using f1(2) d s1(1) by (simp add: flag_def)
  have fl2: "context_flags_segment b f2 = [0, 0]"
    using f2(2) d s2'(1) db2 by (simp add: flag_def)
  from log fl1 fl2 db3 show ?thesis by blast
qed

lemma infer_dialog_two_returns:
  assumes "\<forall>act. ctx_prev_resp_act c1 = Some act \<longrightarrow> act \<in> set (actions b)"
    and "\<forall>act. ctx_prev_resp_act c2 = Some act \<longrightarrow> act \<in> set (actions b)"
    and net: "\<forall>calls. length (network_infer b calls) = n_actions b"
    and pos: "0 < n_actions b"
  shows "\<exists>rs s3. infer_dialog b [c1, c2] s0 = Inr (rs, s3)"
proof -
  have len0: "length (prev_action (reset b s0)) = n_actions b" by simp
  from infer_turns_Cons_returns [OF assms(1) net pos len0, of "[c2]"] obtain r1 s2 where
    l2: "length (prev_action s2) = n_actions b"
    and e1: "infer_turns b [c1, c2] (reset b s0)
         = (case infer_turns b [c2] s2 of
              Inl e \<Rightarrow> Inl e | Inr (res, s3) \<Rightarrow> Inr (r1 # res, s3))"
    by blast
  from infer_turns_Cons_returns [OF assms(2) net pos l2, of "[]"] obtain r2 s3 where
    e2: "infer_turns b [c2] s2
         = (case infer_turns b [] s3 of
              Inl e \<Rightarrow> Inl e | Inr (res, s4) \<Rightarrow> Inr (r2 # res, s4))"
    by blast
  from e1 e2 show ?thesis by (simp add: infer_dialog_def)
qed

text \<open>
  C4. A turn of the training loop, and a turn of \<open>_infer\<close>, replaces the stored database
  result exactly when the turn supplies one, and the second context flag of the turn's
  features (for \<open>_infer\<close>, the features handed to \<open>network.infer\<close>) compares the value
  stored before the turn with the empty dictionary. So, in a dialog whose first turn
  supplies a result \<open>d\<close> that is not empty and whose second turn supplies none, both
  context flags of the second turn are 0 and the stored result at the end is still \<open>d\<close>:
  in the training loop when the labels are known, and in \<open>_infer_dialog\<close> whenever it
  returns, which it does when the network answers with \<open>n_actions\<close> probabilities and
  the previous-action labels supplied are known.
\<close>

theorem sticky_db_result:
  "(train_turn b cr s = Inr ((f, a, m), s') \<longrightarrow>
      db_result s' = (case ctx_db_result (fst cr) of
                        None \<Rightarrow> db_result s | Some d \<Rightarrow> Some d)
      \<and> (length (prev_action s) = n_actions b \<longrightarrow>
           context_flags_segment b f
             = [flag (ctx_db_result (fst cr) = Some []), flag (db_result s = Some [])]))
   \<and> (priv_infer b c db prob si = Inr (r, s2) \<longrightarrow>
        db_result s2 = (case db of None \<Rightarrow> db_result si | Some d \<Rightarrow> Some d)
        \<and> (length (prev_action si) = n_actions b \<longrightarrow>
             (\<exists>fi mi. net_log s2 = net_log si @ [Infer fi mi]
                \<and> context_flags_segment b fi
                    = [flag (db = Some []), flag (db_result si = Some [])])))
   \<and> (d \<noteq> [] \<and> ctx_db_result c1 = Some d \<and> ctx_db_result c2 = None
        \<and> resp_act r1 \<in> set (actions b) \<and> resp_act r2 \<in> set (actions b) \<longrightarrow>
        (\<exists>fs as ms s3.
            dialog_turns b [(c1, r1), (c2, r2)] (reset b s0) = Inr ((fs, as, ms), s3)
          \<and> context_flags_segment b (fs ! 1) = [0, 0]
          \<and> db_result s3 = Some d))
   \<and> (d \<noteq> [] \<and> ctx_db_result c1 = Some d \<and> ctx_db_result c2 = None
        \<and> infer_dialog b [c1, c2] s0 = Inr (rs, sf) \<longrightarrow>
        (\<exists>f1 m1 f2 m2.
            net_log sf = net_log s0 @ [ResetState, Infer f1 m1, Infer f2 m2]
          \<and> context_flags_segment b f1 = [0, 0]
          \<and> context_flags_segment b f2 = [0, 0]
          \<and> db_result sf = Some d))
   \<and> (d \<noteq> [] \<and> ctx_db_result c1 = Some d \<and> ctx_db_result c2 = None
        \<and> 0 < n_actions b \<and> (\<forall>calls. length (network_infer b calls) = n_actions b)
        \<and> (\<forall>act. ctx_prev_resp_act c1 = Some act \<longrightarrow> act \<in> set (actions b))
        \<and> (\<forall>act. ctx_prev_resp_act c2 = Some act \<longrightarrow> act \<in> set (actions b)) \<longrightarrow>
        (\<exists>rs' s4 f1 m1 f2 m2.
            infer_dialog b [c1, c2] s0 = Inr (rs', s4)
          \<and> net_log s4 = net_log s0 @ [ResetState, Infer f1 m1, Infer f2 m2]
          \<and> context_flags_segment b f2 = [0, 0]
          \<and> db_result s4 = Some d))"
proof (intro conjI impI)
  assume t: "train_turn b cr s = Inr ((f, a, m), s')"
  from train_turn_InrD [OF t]
  show "db_result s' = (case ctx_db_result (fst cr) of
                        None \<Rightarrow> db_result s | Some d \<Rightarrow> Some d)"
    by simp
  assume "length (prev_action s) = n_actions b"
  with train_turn_InrD [OF t]
  show "context_flags_segment b f
             = [flag (ctx_db_result (fst cr) = Some []), flag (db_result s = Some [])]"
    by (simp add: context_flags_segment_encode)
next
  assume p: "priv_infer b c db prob si = Inr (r, s2)"
  then show "db_result s2 = (case db of None \<Rightarrow> db_result si | Some d \<Rightarrow> Some d)"
    by (rule priv_infer_InrD)
  assume "length (prev_action si) = n_actions b"
  with p show "\<exists>fi mi. net_log s2 = net_log si @ [Infer fi mi]
                \<and> context_flags_segment b fi
                    = [flag (db = Some []), flag (db_result si = Some [])]"
    by (rule priv_infer_flags)
next
  assume h: "d \<noteq> [] \<and> ctx_db_result c1 = Some d \<and> ctx_db_result c2 = None
        \<and> resp_act r1 \<in> set (actions b) \<and> resp_act r2 \<in> set (actions b)"
  have len0: "length (prev_action (reset b s0)) = n_actions b" by simp
  from h obtain a1 where a1: "a1 < n_actions b" "encode_response b (resp_act r1) = Inr a1"
    using encode_response_known by blast
  from h obtain a2 where a2: "a2 < n_actions b" "encode_response b (resp_act r2) = Inr a2"
    using encode_response_known by blast
  from train_turn_Inr [of b "(c1, r1)" a1 "reset b s0"] a1 len0 h obtain m1 s1 where
    t1: "train_turn b (c1, r1) (reset b s0)
           = Inr ((fst (encode_context b (ctx_text c1) (ctx_db_result c1) (reset b s0)), a1, m1), s1)"
    and p1: "prev_action s1 = one_hot (n_actions b) a1"
    and d1: "db_result s1 = Some d"
    by auto
  have len1: "length (prev_action s1) = n_actions b" using p1 by simp
  from train_turn_Inr [of b "(c2, r2)" a2 s1] a2 len1 h d1 obtain m2 s3 where
    t2: "train_turn b (c2, r2) s1
           = Inr ((fst (encode_context b (ctx_text c2) (ctx_db_result c2) s1), a2, m2), s3)"
    and d3: "db_result s3 = Some d"
    by auto
  have fl: "context_flags_segment b (fst (encode_context b (ctx_text c2) (ctx_db_result c2) s1))
      = [0, 0]"
    using len1 d1 h by (simp add: context_flags_segment_encode flag_def)
  show "\<exists>fs as ms s3.
            dialog_turns b [(c1, r1), (c2, r2)] (reset b s0) = Inr ((fs, as, ms), s3)
          \<and> context_flags_segment b (fs ! 1) = [0, 0]
          \<and> db_result s3 = Some d"
    using t1 t2 fl d3 by simp
next
  assume h: "d \<noteq> [] \<and> ctx_db_result c1 = Some d \<and> ctx_db_result c2 = None
        \<and> infer_dialog b [c1, c2] s0 = Inr (rs, sf)"
  then have "infer_dialog b [c1, c2] s0 = Inr (rs, sf)" "d \<noteq> []"
    "ctx_db_result c1 = Some d" "ctx_db_result c2 = None"
    by simp_all
  then show "\<exists>f1 m1 f2 m2.
            net_log sf = net_log s0 @ [ResetState, Infer f1 m1, Infer f2 m2]
          \<and> context_flags_segment b f1 = [0, 0]
          \<and> context_flags_segment b f2 = [0, 0]
          \<and> db_result sf = Some d"
    by (rule infer_dialog_sticky)
next
  assume h: "d \<noteq> [] \<and> ctx_db_result c1 = Some d \<and> ctx_db_result c2 = None
        \<and> 0 < n_actions b \<and> (\<forall>calls. length (network_infer b calls) = n_actions b)
        \<and> (\<forall>act. ctx_prev_resp_act c1 = Some act \<longrightarrow> act \<in> set (actions b))
        \<and> (\<forall>act. ctx_prev_resp_act c2 = Some act \<longrightarrow> act \<in> set (actions b))"
  then have k1: "\<forall>act. ctx_prev_resp_act c1 = Some act \<longrightarrow> act \<in> set (actions b)"
    and k2: "\<forall>act. ctx_prev_resp_act c2 = Some act \<longrightarrow> act \<in> set (actions b)"
    and net: "\<forall>calls. length (network_infer b calls) = n_actions b"
    and pos: "0 < n_actions b"
    by simp_all
  from infer_dialog_two_returns [OF k1 k2 net pos, of s0] obtain rs' s4 where
    run: "infer_dialog b [c1, c2] s0 = Inr (rs', s4)"
    by blast
  from h have "d \<noteq> []" "ctx_db_result c1 = Some d" "ctx_db_result c2 = None" by simp_all
  from infer_dialog_sticky [OF run this] run
  show "\<exists>rs' s4 f1 m1 f2 m2.
            infer_dialog b [c1, c2] s0 = Inr (rs', s4)
          \<and> net_log s4 = net_log s0 @ [ResetState, Infer f1 m1, Infer f2 m2]
          \<and> context_flags_segment b f2 = [0, 0]
          \<and> db_result s4 = Some d"
    by blast
qed

text \<open>The definitions that evaluate a run of the demonstration bot.\<close>

lemmas demo_defs = demo_bot_def demo_state_def demo_contexts_def demo_responses_def
  train_turn_def reset_def encode_context_def tokenized_def strip_def is_space_def
  encode_response_def actions_def set_one_hot_def action_mask_def templates_def n_actions_def
  store_db_result_def has_key_def flag_def Let_def upt_rec priv_infer_def np_argmax_def
  decode_response_def decode_template_def list_getitem_def response_slots_def

lemma demo_train_turn:
  "train_turn demo_bot (demo_contexts ! 0, demo_responses ! 0) (reset demo_bot demo_state)
     = Inr (([0, 1, 0, 1 / 2, 1 / 2, 1, 0, 0, 0, 0], 0, [1, 1]),
            \<lparr> tracker = [(''food'', ''italian'')], db_result = Some [(''x'', 1)],
              prev_action = [1, 0], net_log = [ResetState] \<rparr>)"
  by (simp add: demo_defs)

lemma demo_priv_infer:
  "priv_infer demo_bot ''hello'' None False demo_state
     = Inr (''goodbye'',
            \<lparr> tracker = [], db_result = None, prev_action = [0, 1],
              net_log = [Infer [1, 0, 1, 0, 0, 0, 0, 0, 0, 0] [1, 1]] \<rparr>)"
  by (simp add: demo_defs)

lemma demo_priv_infer_stored:
  "priv_infer demo_bot ''hello'' (Some [(''x'', 1)]) False
       \<lparr> tracker = [], db_result = Some [], prev_action = [0, 0], net_log = [] \<rparr>
     = Inr (''goodbye'',
            \<lparr> tracker = [], db_result = Some [(''x'', 1)], prev_action = [0, 1],
              net_log = [Infer [1, 0, 1, 0, 0, 0, 0, 1, 0, 0] [1, 1]] \<rparr>)"
  by (simp add: demo_defs)

text \<open>
  The statement at the demonstration dialog, whose first turn supplies \<open>{"x": 1}\<close> and
  whose second turn supplies nothing, trained on and inferred; and at a turn of \<open>_infer\<close>
  that supplies \<open>{"x": 1}\<close> when the stored result is the empty dictionary: the flag of
  the stored result is 1, and \<open>{"x": 1}\<close> is stored afterwards.
\<close>

theorem sticky_db_result_witness:
  "train_turn demo_bot (demo_contexts ! 0, demo_responses ! 0) (reset demo_bot demo_state)
     = Inr (([0, 1, 0, 1 / 2, 1 / 2, 1, 0, 0, 0, 0], 0, [1, 1]),
            \<lparr> tracker = [(''food'', ''italian'')], db_result = Some [(''x'', 1)],
              prev_action = [1, 0], net_log = [ResetState] \<rparr>)
   \<and> length (prev_action (reset demo_bot demo_state)) = n_actions demo_bot
   \<and> context_flags_segment demo_bot [0, 1, 0, 1 / 2, 1 / 2, 1, 0, 0, 0, 0] = [0, 0]
   \<and> priv_infer demo_bot ''hello'' None False demo_state
       = Inr (''goodbye'',
              \<lparr> tracker = [], db_result = None, prev_action = [0, 1],
                net_log = [Infer [1, 0, 1, 0, 0, 0, 0, 0, 0, 0] [1, 1]] \<rparr>)
   \<and> priv_infer demo_bot ''hello'' (Some [(''x'', 1)]) False
         \<lparr> tracker = [], db_result = Some [], prev_action = [0, 0], net_log = [] \<rparr>
       = Inr (''goodbye'',
              \<lparr> tracker = [], db_result = Some [(''x'', 1)], prev_action = [0, 1],
                net_log = [Infer [1, 0, 1, 0, 0, 0, 0, 1, 0, 0] [1, 1]] \<rparr>)
   \<and> context_flags_segment demo_bot [1, 0, 1, 0, 0, 0, 0, 1, 0, 0] = [0, 1]
   \<and> [(''x'', 1 :: int)] \<noteq> []
   \<and> ctx_db_result (demo_contexts ! 0) = Some [(''x'', 1)]
   \<and> ctx_db_result (demo_contexts ! 1) = None
   \<and> resp_act (demo_responses ! 0) \<in> set (actions demo_bot)
   \<and> resp_act (demo_responses ! 1) \<in> set (actions demo_bot)
   \<and> (\<exists>fs as ms s3.
         dialog_turns demo_bot
           [(demo_contexts ! 0, demo_responses ! 0), (demo_contexts ! 1, demo_responses ! 1)]
           (reset demo_bot demo_state) = Inr ((fs, as, ms), s3)
       \<and> context_flags_segment demo_bot (fs ! 1) = [0, 0]
       \<and> db_result s3 = Some [(''x'', 1)])
   \<and> 0 < n_actions demo_bot
   \<and> (\<forall>calls. length (network_infer demo_bot calls) = n_actions demo_bot)
   \<and> ctx_prev_resp_act (demo_contexts ! 0) = None
   \<and> ctx_prev_resp_act (demo_contexts ! 1) = Some ''api_call''
   \<and> ''api_call'' \<in> set (actions demo_bot)
   \<and> (\<exists>rs' s4 f1 m1 f2 m2.
         infer_dialog demo_bot [demo_contexts ! 0, demo_contexts ! 1] demo_state
           = Inr (rs', s4)
       \<and> net_log s4 = net_log demo_state @ [ResetState, Infer f1 m1, Infer f2 m2]
       \<and> context_flags_segment demo_bot f2 = [0, 0]
       \<and> db_result s4 = Some [(''x'', 1)])"
proof -
  let ?si = "\<lparr> tracker = [], db_result = Some [], prev_action = [0, 0], net_log = [] \<rparr>
               :: (string pydict, int) bot_state"
  note inst = sticky_db_result [where b = demo_bot
      and cr = "(demo_contexts ! 0, demo_responses ! 0)" and s = "reset demo_bot demo_state"
      and f = "[0, 1, 0, 1 / 2, 1 / 2, 1, 0, 0, 0, 0]" and a = 0 and m = "[1, 1]"
      and s' = "\<lparr> tracker = [(''food'', ''italian'')], db_result = Some [(''x'', 1)],
              prev_action = [1, 0], net_log = [ResetState] \<rparr>"
      and c = "''hello''" and db = "Some [(''x'', 1)]" and prob = False and si = ?si
      and r = "''goodbye''"
      and ?s2.0 = "\<lparr> tracker = [], db_result = Some [(''x'', 1)], prev_action = [0, 1],
                net_log = [Infer [1, 0, 1, 0, 0, 0, 0, 1, 0, 0] [1, 1]] \<rparr>"
      and d = "[(''x'', 1)]" and ?c1.0 = "demo_contexts ! 0" and ?c2.0 = "demo_contexts ! 1"
      and ?r1.0 = "demo_responses ! 0" and ?r2.0 = "demo_responses ! 1" and ?s0.0 = demo_state]
  have len: "length (prev_action (reset demo_bot demo_state)) = n_actions demo_bot"
    by (simp add: reset_def)
  have leni: "length (prev_action ?si) = n_actions demo_bot"
    by (simp add: n_actions_def demo_bot_def)
  have h3: "[(''x'', 1 :: int)] \<noteq> []
     \<and> ctx_db_result (demo_contexts ! 0) = Some [(''x'', 1)]
     \<and> ctx_db_result (demo_contexts ! 1) = None
     \<and> resp_act (demo_responses ! 0) \<in> set (actions demo_bot)
     \<and> resp_act (demo_responses ! 1) \<in> set (actions demo_bot)"
    by (simp add: demo_contexts_def demo_responses_def actions_def demo_bot_def)
  have net: "0 < n_actions demo_bot"
    "\<forall>calls. length (network_infer demo_bot calls) = n_actions demo_bot"
    by (simp_all add: n_actions_def demo_bot_def)
  have prev: "ctx_prev_resp_act (demo_contexts ! 0) = None"
    "ctx_prev_resp_act (demo_contexts ! 1) = Some ''api_call''"
    "''api_call'' \<in> set (actions demo_bot)"
    by (simp_all add: demo_contexts_def actions_def demo_bot_def)
  have h5: "[(''x'', 1 :: int)] \<noteq> []
     \<and> ctx_db_result (demo_contexts ! 0) = Some [(''x'', 1)]
     \<and> ctx_db_result (demo_contexts ! 1) = None
     \<and> 0 < n_actions demo_bot
     \<and> (\<forall>calls. length (network_infer demo_bot calls) = n_actions demo_bot)
     \<and> (\<forall>act. ctx_prev_resp_act (demo_contexts ! 0) = Some act
            \<longrightarrow> act \<in> set (actions demo_bot))
     \<and> (\<forall>act. ctx_prev_resp_act (demo_contexts ! 1) = Some act
            \<longrightarrow> act \<in> set (actions demo_bot))"
    using h3 net prev by simp
  from inst [THEN conjunct1, rule_format, OF demo_train_turn] len
  have fl: "context_flags_segment demo_bot [0, 1, 0, 1 / 2, 1 / 2, 1, 0, 0, 0, 0] = [0, 0]"
    by (simp add: demo_contexts_def flag_def reset_def)
  from inst [THEN conjunct2, THEN conjunct1] demo_priv_infer_stored leni
  have "\<exists>fi mi. [Infer [1, 0, 1, 0, 0, 0, 0, 1, 0, 0] [1, 1]] = [] @ [Infer fi mi]
          \<and> context_flags_segment demo_bot fi = [0, 1]"
    by (simp add: flag_def)
  then have fli: "context_flags_segment demo_bot [1, 0, 1, 0, 0, 0, 0, 1, 0, 0] = [0, 1]"
    by auto
  from inst [THEN conjunct2, THEN conjunct2, THEN conjunct1, rule_format, OF h3]
  have ex: "\<exists>fs as ms s3.
         dialog_turns demo_bot
           [(demo_contexts ! 0, demo_responses ! 0), (demo_contexts ! 1, demo_responses ! 1)]
           (reset demo_bot demo_state) = Inr ((fs, as, ms), s3)
       \<and> context_flags_segment demo_bot (fs ! 1) = [0, 0]
       \<and> db_result s3 = Some [(''x'', 1)]" .
  from inst [THEN conjunct2, THEN conjunct2, THEN conjunct2, THEN conjunct2, rule_format,
      OF h5]
  have ex2: "\<exists>rs' s4 f1 m1 f2 m2.
         infer_dialog demo_bot [demo_contexts ! 0, demo_contexts ! 1] demo_state
           = Inr (rs', s4)
       \<and> net_log s4 = net_log demo_state @ [ResetState, Infer f1 m1, Infer f2 m2]
       \<and> context_flags_segment demo_bot f2 = [0, 0]
       \<and> db_result s4 = Some [(''x'', 1)]" .
  from demo_train_turn len fl demo_priv_infer demo_priv_infer_stored fli h3 ex net prev ex2
  show ?thesis by blast
qed

subsection \<open>Dialogs with more contexts than responses, or fewer\<close>





subsection \<open>The fused feature vector\<close>

lemma encode_context_length:
  assumes "\<forall>tok. length (bow_encoder_infer b tok) = bow_dim"
    and "\<forall>f tok. embedder_infer b = Some f \<longrightarrow> length (f tok) = emb_dim"
    and "\<forall>f tok. intent_classifier_infer b = Some f \<longrightarrow> length (f tok) = n_intents"
    and "\<forall>t. length (tracker_infer b t) = num_features"
    and "length (prev_action s) = n_actions b"
  shows "length (fst (encode_context b c db s))
           = feature_length b bow_dim emb_dim n_intents num_features"
  using assms
  by (simp add: encode_context_features feature_length_def split: option.splits)

lemma dialog_turns_features:
  assumes "dialog_turns b turns s = Inr ((fs, as, ms), s')"
    and "length (prev_action s) = n_actions b"
  shows "\<forall>f \<in> set fs. \<exists>cx db st. f = fst (encode_context b cx db st)
            \<and> length (prev_action st) = n_actions b"
  using assms
proof (induction turns arbitrary: s fs as ms)
  case Nil
  then show ?case by simp
next
  case (Cons cr turns)
  from Cons.prems(1) obtain f a m s1 fs' as' ms' where
    t: "train_turn b cr s = Inr ((f, a, m), s1)"
    and r: "dialog_turns b turns s1 = Inr ((fs', as', ms'), s')"
    and eq: "fs = f # fs'"
    by (auto split: sum.splits)
  from train_turn_InrD [OF t] have
    f: "f = fst (encode_context b (ctx_text (fst cr)) (ctx_db_result (fst cr)) s)"
    and l: "length (prev_action s1) = length (prev_action s)"
    by (auto dest: set_one_hot_length)
  from l Cons.prems(2) have "length (prev_action s1) = n_actions b" by simp
  from Cons.IH [OF r this] f Cons.prems(2) eq show ?case by auto
qed

lemma infer_turns_calls:
  assumes "infer_turns b contexts s = Inr (rs, s')"
    and "length (prev_action s) = n_actions b"
  shows "\<exists>calls. net_log s' = net_log s @ calls
     \<and> length calls = length contexts \<and> length rs = length contexts
     \<and> length (prev_action s') = n_actions b
     \<and> (\<forall>c \<in> set calls. \<exists>f m cx db st. c = Infer f m
           \<and> f = fst (encode_context b cx db st) \<and> length (prev_action st) = n_actions b)"
  using assms
proof (induction contexts arbitrary: s rs)
  case Nil
  then show ?case by simp
next
  case (Cons c contexts)
  from Cons.prems(1) obtain s1 r s2 res where
    tf: "(case ctx_prev_resp_act c of
              None \<Rightarrow> Inr s
            | Some act \<Rightarrow>
                (case encode_response b act of
                   Inl e \<Rightarrow> Inl e
                 | Inr action_id \<Rightarrow>
                     (case set_one_hot action_id (prev_action s) of
                        Inl e \<Rightarrow> Inl e
                      | Inr pa \<Rightarrow> Inr (s\<lparr> prev_action := pa \<rparr>)))) = Inr s1"
    and p: "priv_infer b (ctx_text c) (ctx_db_result c) False s1 = Inr (r, s2)"
    and rest: "infer_turns b contexts s2 = Inr (res, s')"
    and eq: "rs = r # res"
    by (auto split: sum.splits)
  from tf have s1: "net_log s1 = net_log s" "length (prev_action s1) = length (prev_action s)"
    by (auto split: option.splits sum.splits dest: set_one_hot_length)
  from priv_infer_InrD [OF p] have
    log2: "net_log s2 = net_log s1
            @ [Infer (fst (encode_context b (ctx_text c) (ctx_db_result c) s1))
                 (action_mask b (snd (encode_context b (ctx_text c) (ctx_db_result c) s1)))]"
    and len2: "length (prev_action s2) = length (prev_action s1)"
    by simp_all
  have n1: "length (prev_action s1) = n_actions b" using s1 Cons.prems(2) by simp
  then have n2: "length (prev_action s2) = n_actions b" using len2 by simp
  from Cons.IH [OF rest n2] obtain calls where
    c: "net_log s' = net_log s2 @ calls" "length calls = length contexts"
      "length res = length contexts" "length (prev_action s') = n_actions b"
      "\<forall>c \<in> set calls. \<exists>f m cx db st. c = Infer f m
           \<and> f = fst (encode_context b cx db st) \<and> length (prev_action st) = n_actions b"
    by blast
  let ?call = "Infer (fst (encode_context b (ctx_text c) (ctx_db_result c) s1))
                 (action_mask b (snd (encode_context b (ctx_text c) (ctx_db_result c) s1)))"
  have log: "net_log s' = net_log s @ (?call # calls)"
    using c(1) log2 s1(1) by simp
  have all: "\<forall>c \<in> set (?call # calls). \<exists>f m cx db st. c = Infer f m
           \<and> f = fst (encode_context b cx db st) \<and> length (prev_action st) = n_actions b"
    using c(5) n1 by auto
  have lens: "length (?call # calls) = length (c # contexts)"
    "length rs = length (c # contexts)"
    using c(2,3) eq by simp_all
  from log lens c(4) all show ?case by blast
qed

lemma infer_features_append [simp]:
  "infer_features (xs @ ys) = infer_features xs @ infer_features ys"
  by (simp add: infer_features_def)

lemma infer_features_Infer_calls:
  assumes "\<forall>c \<in> set calls. \<exists>f m. c = Infer f m \<and> P f"
  shows "length (infer_features calls) = length calls
       \<and> (\<forall>f \<in> set (infer_features calls). P f)"
  using assms
proof (induction calls)
  case Nil
  then show ?case by (simp add: infer_features_def)
next
  case (Cons c calls)
  then obtain f m where "c = Infer f m" "P f" by auto
  moreover have "infer_features (c # calls) = infer_features [c] @ infer_features calls"
    using infer_features_append [of "[c]" calls] by simp
  ultimately show ?case using Cons by (auto simp: infer_features_def)
qed

text \<open>
  C7. The feature vector of a turn is the concatenation of the bag-of-words, embedding,
  intent, tracker-state, context-flag and previous-action segments, in this order, where
  the embedding and the intent segment are empty when the collaborator is absent. When
  the bag-of-words encoder, the embedder, the intent classifier and the tracker return
  vectors of fixed lengths, every feature vector built in a state whose previous-action
  memory has \<open>n_actions\<close> entries has the length \<open>feature_length\<close>: so has every
  feature vector of a training dialog, one per turn, and every feature vector handed to
  \<open>network.infer\<close> in an inference dialog, one per turn.
\<close>

theorem feature_vector_layout:
  assumes "\<forall>tok. length (bow_encoder_infer b tok) = bow_dim"
    and "\<forall>f tok. embedder_infer b = Some f \<longrightarrow> length (f tok) = emb_dim"
    and "\<forall>f tok. intent_classifier_infer b = Some f \<longrightarrow> length (f tok) = n_intents"
    and "\<forall>t. length (tracker_infer b t) = num_features"
  shows "fst (encode_context b c db s) =
           bow_encoder_infer b (tokenized b c)
           @ (case embedder_infer b of None \<Rightarrow> [] | Some f \<Rightarrow> f (tokenized b c))
           @ (case intent_classifier_infer b of None \<Rightarrow> [] | Some f \<Rightarrow> f (tokenized b c))
           @ tracker_infer b (tracker (snd (encode_context b c db s)))
           @ [flag (db = Some []), flag (db_result s = Some [])]
           @ prev_action s
     \<and> (length (prev_action s) = n_actions b \<longrightarrow>
          length (fst (encode_context b c db s))
            = feature_length b bow_dim emb_dim n_intents num_features)
     \<and> (dialog_turns b turns (reset b s0) = Inr ((fs, as, ms), s1) \<longrightarrow>
          length fs = length turns
          \<and> (\<forall>f \<in> set fs. length f = feature_length b bow_dim emb_dim n_intents num_features))
     \<and> (infer_dialog b contexts s2 = Inr (rs, s3) \<longrightarrow>
          (\<exists>calls. net_log s3 = net_log s2 @ ResetState # calls
             \<and> length (infer_features calls) = length contexts
             \<and> (\<forall>f \<in> set (infer_features calls).
                   length f = feature_length b bow_dim emb_dim n_intents num_features)))"
proof (intro conjI impI)
  show "fst (encode_context b c db s) =
           bow_encoder_infer b (tokenized b c)
           @ (case embedder_infer b of None \<Rightarrow> [] | Some f \<Rightarrow> f (tokenized b c))
           @ (case intent_classifier_infer b of None \<Rightarrow> [] | Some f \<Rightarrow> f (tokenized b c))
           @ tracker_infer b (tracker (snd (encode_context b c db s)))
           @ [flag (db = Some []), flag (db_result s = Some [])]
           @ prev_action s"
    by (rule encode_context_features)
next
  assume "length (prev_action s) = n_actions b"
  with assms show "length (fst (encode_context b c db s))
            = feature_length b bow_dim emb_dim n_intents num_features"
    by (rule encode_context_length)
next
  assume r: "dialog_turns b turns (reset b s0) = Inr ((fs, as, ms), s1)"
  from dialog_turns_InrD [OF r] show "length fs = length turns" by simp
  have "length (prev_action (reset b s0)) = n_actions b" by simp
  from dialog_turns_features [OF r this] encode_context_length [OF assms]
  show "\<forall>f \<in> set fs. length f = feature_length b bow_dim emb_dim n_intents num_features"
    by metis
next
  assume r: "infer_dialog b contexts s2 = Inr (rs, s3)"
  then have r': "infer_turns b contexts (reset b s2) = Inr (rs, s3)"
    by (simp add: infer_dialog_def)
  have "length (prev_action (reset b s2)) = n_actions b" by simp
  from infer_turns_calls [OF r' this] obtain calls where
    c: "net_log s3 = net_log (reset b s2) @ calls" "length calls = length contexts"
      "\<forall>c \<in> set calls. \<exists>f m cx db st. c = Infer f m
           \<and> f = fst (encode_context b cx db st) \<and> length (prev_action st) = n_actions b"
    by blast
  from c(3) encode_context_length [OF assms]
  have "\<forall>c \<in> set calls. \<exists>f m. c = Infer f m
           \<and> length f = feature_length b bow_dim emb_dim n_intents num_features"
    by metis
  from infer_features_Infer_calls [OF this] c(1,2)
  show "\<exists>calls. net_log s3 = net_log s2 @ ResetState # calls
             \<and> length (infer_features calls) = length contexts
             \<and> (\<forall>f \<in> set (infer_features calls).
                   length f = feature_length b bow_dim emb_dim n_intents num_features)"
    by (intro exI [of _ calls]) simp
qed

lemma demo_dialog_turns:
  "dialog_turns demo_bot (zip demo_contexts demo_responses) (reset demo_bot demo_state)
     = Inr (([[0, 1, 0, 1 / 2, 1 / 2, 1, 0, 0, 0, 0], [1, 0, 1, 0, 0, 1, 0, 0, 1, 0]],
             [0, 1], [[1, 1], [1, 1]]),
            \<lparr> tracker = [(''food'', ''italian'')], db_result = Some [(''x'', 1)],
              prev_action = [0, 1], net_log = [ResetState] \<rparr>)"
  by (simp add: demo_defs)

lemma demo_infer_dialog:
  "infer_dialog demo_bot demo_contexts demo_state
     = Inr ([''goodbye'', ''goodbye''],
            \<lparr> tracker = [(''food'', ''italian'')], db_result = Some [(''x'', 1)],
              prev_action = [0, 1],
              net_log = [ResetState, Infer [0, 1, 0, 1 / 2, 1 / 2, 1, 0, 0, 0, 0] [1, 1],
                         Infer [1, 0, 1, 0, 0, 1, 0, 0, 1, 0] [1, 1]] \<rparr>)"
  by (simp add: demo_defs infer_dialog_def)

text \<open>
  The statement at the demonstration bot, which has no embedder: two bag-of-words entries,
  three intents, one tracker feature, two context flags and two actions make ten entries,
  in both turns of the training dialog and of the inference dialog.
\<close>

theorem feature_vector_layout_witness:
  "(\<forall>tok. length (bow_encoder_infer demo_bot tok) = 2)
   \<and> embedder_infer demo_bot = None
   \<and> (\<exists>f. intent_classifier_infer demo_bot = Some f \<and> (\<forall>tok. length (f tok) = 3))
   \<and> (\<forall>t. length (tracker_infer demo_bot t) = 1)
   \<and> length (prev_action demo_state) = n_actions demo_bot
   \<and> feature_length demo_bot 2 0 3 1 = 10
   \<and> length (fst (encode_context demo_bot ''hello'' None demo_state)) = 10
   \<and> list_all (\<lambda>f. length f = 10)
        [[0, 1, 0, 1 / 2, 1 / 2, 1, 0, 0, 0, 0], [1, 0, 1, 0, 0, 1, 0, 0, 1, 0 :: real]]
   \<and> (\<exists>calls. [ResetState, Infer [0, 1, 0, 1 / 2, 1 / 2, 1, 0, 0, 0, 0] [1, 1],
                   Infer [1, 0, 1, 0, 0, 1, 0, 0, 1, 0] [1, 1]]
                 = net_log demo_state @ ResetState # calls
         \<and> length (infer_features calls) = length demo_contexts
         \<and> list_all (\<lambda>f. length f = 10) (infer_features calls))"
proof -
  have h1: "\<forall>tok. length (bow_encoder_infer demo_bot tok) = 2"
    by (simp add: demo_bot_def)
  have h2: "\<forall>f tok. embedder_infer demo_bot = Some f \<longrightarrow> length (f tok) = 0"
    by (simp add: demo_bot_def)
  have h3: "\<forall>f tok. intent_classifier_infer demo_bot = Some f \<longrightarrow> length (f tok) = 3"
    by (simp add: demo_bot_def)
  have h4: "\<forall>t. length (tracker_infer demo_bot t) = 1"
    by (simp add: demo_bot_def)
  have none: "embedder_infer demo_bot = None" by (simp add: demo_bot_def)
  have some: "\<exists>f. intent_classifier_infer demo_bot = Some f \<and> (\<forall>tok. length (f tok) = 3)"
    by (simp add: demo_bot_def)
  have len: "length (prev_action demo_state) = n_actions demo_bot"
    by (simp add: demo_state_def n_actions_def demo_bot_def)
  have fl: "feature_length demo_bot 2 0 3 1 = 10"
    by (simp add: feature_length_def n_actions_def demo_bot_def)
  note inst = feature_vector_layout [OF h1 h2 h3 h4, where c = "''hello''" and db = None
      and s = demo_state and turns = "zip demo_contexts demo_responses" and ?s0.0 = demo_state
      and contexts = demo_contexts and ?s2.0 = demo_state]
  from inst [THEN conjunct2, THEN conjunct1, rule_format, OF len]
  have one: "length (fst (encode_context demo_bot ''hello'' None demo_state)) = 10"
    by (simp only: fl)
  from inst [THEN conjunct2, THEN conjunct2, THEN conjunct1, rule_format, OF demo_dialog_turns]
  have two: "list_all (\<lambda>f. length f = 10)
        [[0, 1, 0, 1 / 2, 1 / 2, 1, 0, 0, 0, 0], [1, 0, 1, 0, 0, 1, 0, 0, 1, 0 :: real]]"
    by (simp add: fl)
  from inst [THEN conjunct2, THEN conjunct2, THEN conjunct2, rule_format, OF demo_infer_dialog]
  have three: "\<exists>calls. [ResetState, Infer [0, 1, 0, 1 / 2, 1 / 2, 1, 0, 0, 0, 0] [1, 1],
                   Infer [1, 0, 1, 0, 0, 1, 0, 0, 1, 0] [1, 1]]
                 = net_log demo_state @ ResetState # calls
         \<and> length (infer_features calls) = length demo_contexts
         \<and> list_all (\<lambda>f. length f = 10) (infer_features calls)"
    by (simp only: fl list_all_iff bot_state.simps)
  from h1 none some h4 len fl one two three show ?thesis by blast
qed

subsection \<open>Inference on a single string\<close>

lemma infer_dialog_calls:
  assumes "infer_dialog b contexts s = Inr (rs, s')"
  shows "\<exists>calls. net_log s' = net_log s @ ResetState # calls
     \<and> length calls = length contexts \<and> ResetState \<notin> set calls"
proof -
  from assms have r: "infer_turns b contexts (reset b s) = Inr (rs, s')"
    by (simp add: infer_dialog_def)
  have "length (prev_action (reset b s)) = n_actions b" by simp
  from infer_turns_calls [OF r this] obtain calls where
    c: "net_log s' = net_log (reset b s) @ calls" "length calls = length contexts"
      "\<forall>c \<in> set calls. \<exists>f m cx db st. c = Infer f m
           \<and> f = fst (encode_context b cx db st) \<and> length (prev_action st) = n_actions b"
    by blast
  from c(3) have "ResetState \<notin> set calls" by auto
  with c(1,2) show ?thesis by simp
qed

lemma infer_on_batch_resets:
  assumes "infer_on_batch b xs s = Inr (rs, s')"
  shows "\<exists>calls. net_log s' = net_log s @ calls
     \<and> length (filter (\<lambda>c. c = ResetState) calls) = length xs"
  using assms
proof (induction xs arbitrary: s rs)
  case Nil
  then show ?case by simp
next
  case (Cons x xs)
  from Cons.prems obtain r s1 rest where
    d: "infer_dialog b x s = Inr (r, s1)"
    and o: "infer_on_batch b xs s1 = Inr (rest, s')"
    by (auto split: sum.splits)
  from infer_dialog_calls [OF d] obtain calls1 where
    c1: "net_log s1 = net_log s @ ResetState # calls1" "ResetState \<notin> set calls1"
    by blast
  from Cons.IH [OF o] obtain calls2 where
    c2: "net_log s' = net_log s1 @ calls2"
      "length (filter (\<lambda>c. c = ResetState) calls2) = length xs"
    by blast
  from c1(2) have "filter (\<lambda>c. c = ResetState) calls1 = []"
    by (auto simp: filter_empty_conv)
  with c1(1) c2 have "net_log s' = net_log s @ (ResetState # calls1 @ calls2)
     \<and> length (filter (\<lambda>c. c = ResetState) (ResetState # calls1 @ calls2)) = length (x # xs)"
    by simp
  then show ?case by blast
qed

text \<open>
  C9. \<open>infer\<close> on a string is one call of \<open>_infer\<close> on the state as it is: when it
  returns, the network has received exactly one more call, \<open>infer\<close>, and no
  \<open>reset_state\<close>; the features of that call are built from the tracker of the state
  (updated by the slot filler when there is one, not reset), from its stored database
  result and from its previous-action memory; the stored database result is unchanged.
  \<open>infer\<close> on a batch of dialogs makes one \<open>reset_state\<close> call per dialog, since
  \<open>_infer_dialog\<close> begins with \<open>reset()\<close>.
\<close>

theorem infer_string_keeps_state:
  "(infer b (Str x) s = Inr (out, s') \<longrightarrow>
      (\<exists>r. out = Response r \<and> priv_infer b x None False s = Inr (r, s'))
      \<and> net_log s' = net_log s
           @ [Infer (bow_encoder_infer b (tokenized b x)
                     @ (case embedder_infer b of None \<Rightarrow> [] | Some f \<Rightarrow> f (tokenized b x))
                     @ (case intent_classifier_infer b of
                          None \<Rightarrow> [] | Some f \<Rightarrow> f (tokenized b x))
                     @ tracker_infer b (tracker s')
                     @ [0, flag (db_result s = Some [])]
                     @ prev_action s)
                (action_mask b (snd (encode_context b x None s)))]
      \<and> tracker s' = (case slot_filler_infer b of
                        None \<Rightarrow> tracker s
                      | Some f \<Rightarrow> tracker_update_state b (tracker s) (f (tokenized b x)))
      \<and> db_result s' = db_result s)
   \<and> (infer b (Dialogs xs) si = Inr (out', so) \<longrightarrow>
        (\<exists>calls. net_log so = net_log si @ calls
           \<and> length (filter (\<lambda>c. c = ResetState) calls) = length xs))
   \<and> infer_dialog b contexts sd = infer_turns b contexts (reset b sd)"
proof (intro conjI impI)
  assume a: "infer b (Str x) s = Inr (out, s')"
  then obtain r where r: "out = Response r" "priv_infer b x None False s = Inr (r, s')"
    by (auto simp: infer_def split: sum.splits)
  then show "\<exists>r. out = Response r \<and> priv_infer b x None False s = Inr (r, s')" by blast
  note d = priv_infer_InrD [OF r(2)]
  from d(3) show tr: "tracker s' = (case slot_filler_infer b of
                        None \<Rightarrow> tracker s
                      | Some f \<Rightarrow> tracker_update_state b (tracker s) (f (tokenized b x)))"
    by (simp add: encode_context_state)
  from d(2) show "db_result s' = db_result s" by simp
  from d(1) d(3) show "net_log s' = net_log s
           @ [Infer (bow_encoder_infer b (tokenized b x)
                     @ (case embedder_infer b of None \<Rightarrow> [] | Some f \<Rightarrow> f (tokenized b x))
                     @ (case intent_classifier_infer b of
                          None \<Rightarrow> [] | Some f \<Rightarrow> f (tokenized b x))
                     @ tracker_infer b (tracker s')
                     @ [0, flag (db_result s = Some [])]
                     @ prev_action s)
                (action_mask b (snd (encode_context b x None s)))]"
    by (simp add: encode_context_features [of b x None s] flag_def)
next
  assume "infer b (Dialogs xs) si = Inr (out', so)"
  then obtain rs where "infer_on_batch b xs si = Inr (rs, so)"
    by (auto simp: infer_def split: sum.splits)
  then show "\<exists>calls. net_log so = net_log si @ calls
           \<and> length (filter (\<lambda>c. c = ResetState) calls) = length xs"
    by (rule infer_on_batch_resets)
next
  show "infer_dialog b contexts sd = infer_turns b contexts (reset b sd)"
    by (simp add: infer_dialog_def)
qed

lemma demo_infer_str:
  "infer demo_bot (Str ''hello'') demo_used_state
     = Inr (Response ''goodbye'',
            \<lparr> tracker = [(''food'', ''italian'')], db_result = Some [(''x'', 1)],
              prev_action = [0, 1],
              net_log = [Save, Infer [1, 0, 1, 0, 0, 1, 0, 0, 0, 1] [1, 1]] \<rparr>)"
  by (simp add: demo_defs infer_def demo_used_state_def)

lemma demo_infer_dialogs:
  "infer demo_bot (Dialogs [demo_contexts]) demo_used_state
     = Inr (Responses [[''goodbye'', ''goodbye'']],
            \<lparr> tracker = [(''food'', ''italian'')], db_result = Some [(''x'', 1)],
              prev_action = [0, 1],
              net_log = [Save, ResetState,
                         Infer [0, 1, 0, 1 / 2, 1 / 2, 1, 0, 0, 0, 0] [1, 1],
                         Infer [1, 0, 1, 0, 0, 1, 0, 0, 1, 0] [1, 1]] \<rparr>)"
  by (simp add: demo_defs infer_def infer_dialog_def demo_used_state_def)

text \<open>
  The statement at a state left by an earlier dialog: the features of the single turn end
  with the previous-action memory \<open>[0, 1]\<close> of that state and carry its tracker feature 1;
  the batch of one dialog makes one \<open>reset_state\<close> call.
\<close>

theorem infer_string_keeps_state_witness:
  "infer demo_bot (Str ''hello'') demo_used_state
     = Inr (Response ''goodbye'',
            \<lparr> tracker = [(''food'', ''italian'')], db_result = Some [(''x'', 1)],
              prev_action = [0, 1],
              net_log = [Save, Infer [1, 0, 1, 0, 0, 1, 0, 0, 0, 1] [1, 1]] \<rparr>)
   \<and> priv_infer demo_bot ''hello'' None False demo_used_state
       = Inr (''goodbye'',
            \<lparr> tracker = [(''food'', ''italian'')], db_result = Some [(''x'', 1)],
              prev_action = [0, 1],
              net_log = [Save, Infer [1, 0, 1, 0, 0, 1, 0, 0, 0, 1] [1, 1]] \<rparr>)
   \<and> db_result demo_used_state = Some [(''x'', 1)]
   \<and> infer demo_bot (Dialogs [demo_contexts]) demo_used_state
       = Inr (Responses [[''goodbye'', ''goodbye'']],
            \<lparr> tracker = [(''food'', ''italian'')], db_result = Some [(''x'', 1)],
              prev_action = [0, 1],
              net_log = [Save, ResetState,
                         Infer [0, 1, 0, 1 / 2, 1 / 2, 1, 0, 0, 0, 0] [1, 1],
                         Infer [1, 0, 1, 0, 0, 1, 0, 0, 1, 0] [1, 1]] \<rparr>)
   \<and> (\<exists>calls. [Save, ResetState,
                   Infer [0, 1, 0, 1 / 2, 1 / 2, 1, 0, 0, 0, 0] [1, 1],
                   Infer [1, 0, 1, 0, 0, 1, 0, 0, 1, 0] [1, 1]]
                  = net_log demo_used_state @ calls
         \<and> length (filter (\<lambda>c. c = ResetState) calls) = 1)"
proof -
  note inst = infer_string_keeps_state [where b = demo_bot and x = "''hello''"
      and s = demo_used_state and xs = "[demo_contexts]" and si = demo_used_state]
  from inst [THEN conjunct1, rule_format, OF demo_infer_str]
  have one: "priv_infer demo_bot ''hello'' None False demo_used_state
       = Inr (''goodbye'',
            \<lparr> tracker = [(''food'', ''italian'')], db_result = Some [(''x'', 1)],
              prev_action = [0, 1],
              net_log = [Save, Infer [1, 0, 1, 0, 0, 1, 0, 0, 0, 1] [1, 1]] \<rparr>)"
    and db: "Some [(''x'', 1)] = db_result demo_used_state"
    by simp_all
  from inst [THEN conjunct2, THEN conjunct1, rule_format, OF demo_infer_dialogs]
  have two: "\<exists>calls. [Save, ResetState,
                   Infer [0, 1, 0, 1 / 2, 1 / 2, 1, 0, 0, 0, 0] [1, 1],
                   Infer [1, 0, 1, 0, 0, 1, 0, 0, 1, 0] [1, 1]]
                  = net_log demo_used_state @ calls
         \<and> length (filter (\<lambda>c. c = ResetState) calls) = 1"
    by simp
  from demo_infer_str one db demo_infer_dialogs two show ?thesis by simp
qed

subsection \<open>The loop of epochs\<close>

lemma patience_update_eq:
  "patience_update vp a (cp, best) = (if a < best then (cp - 1, best) else (vp, a))"
  by (simp add: patience_update_def)

lemma patience_after_0 [simp]: "patience_after vp acc 0 = (vp, 0)"
  by (simp add: patience_after_def)

lemma patience_after_Suc:
  "patience_after vp acc (Suc k) = patience_update vp (acc k) (patience_after vp acc k)"
  by (simp add: patience_after_def)

lemma patience_after_best:
  "snd (patience_after vp acc k) = Max (insert 0 (acc ` {..<k}))"
proof (induction k)
  case 0
  then show ?case by simp
next
  case (Suc k)
  obtain cp best where pb: "patience_after vp acc k = (cp, best)"
    by (cases "patience_after vp acc k")
  with Suc have best: "best = Max (insert 0 (acc ` {..<k}))" by simp
  have "snd (patience_after vp acc (Suc k)) = max (acc k) best"
    by (simp add: patience_after_Suc pb patience_update_eq max_def)
  also have "\<dots> = Max (insert (acc k) (insert 0 (acc ` {..<k})))"
    unfolding best by (rule Max_insert [symmetric]) simp_all
  also have "insert (acc k) (insert 0 (acc ` {..<k})) = insert 0 (acc ` {..<Suc k})"
    by (auto simp: lessThan_Suc)
  finally show ?case .
qed

lemma patience_after_step_lower:
  assumes "1 \<le> vp" and "1 \<le> fst (patience_after vp acc k)"
  shows "0 \<le> fst (patience_after vp acc (Suc k))"
proof -
  obtain cp best where pb: "patience_after vp acc k = (cp, best)"
    by (cases "patience_after vp acc k")
  with assms show ?thesis
    by (simp add: patience_after_Suc patience_update_eq)
qed

lemma train_dialog_ok:
  assumes "\<forall>cr \<in> set (zip (fst d) (snd d)). resp_act (snd cr) \<in> set (actions b)"
  shows "\<exists>s'. train_dialog b d s = Inr s'"
proof -
  have "length (prev_action (reset b s)) = n_actions b" by simp
  from dialog_turns_run [OF assms this] show ?thesis
    by (auto simp: train_dialog_def)
qed

lemma train_dialogs_ok:
  assumes "\<forall>d \<in> set ds. \<forall>cr \<in> set (zip (fst d) (snd d)). resp_act (snd cr) \<in> set (actions b)"
  shows "\<exists>s'. train_dialogs b ds s = Inr s'"
  using assms
proof (induction ds arbitrary: s)
  case Nil
  then show ?case by simp
next
  case (Cons d ds)
  then obtain s1 where "train_dialog b d s = Inr s1"
    using train_dialog_ok [of d b s] by auto
  with Cons show ?case by simp
qed

lemma train_batches_ok:
  assumes "\<forall>batch \<in> set tr_data. \<forall>d \<in> set (zip (fst batch) (snd batch)).
             \<forall>cr \<in> set (zip (fst d) (snd d)). resp_act (snd cr) \<in> set (actions b)"
  shows "\<exists>s'. train_batches b tr_data s = Inr s'"
  using assms
proof (induction tr_data arbitrary: s)
  case Nil
  then show ?case by simp
next
  case (Cons batch tr_data)
  then obtain s1 where "train_dialogs b (zip (fst batch) (snd batch)) s = Inr s1"
    using train_dialogs_ok [of "zip (fst batch) (snd batch)" b s] by auto
  with Cons show ?case by simp
qed

lemma train_epochs_run:
  assumes ok: "\<And>s. \<exists>s'. train_batches b tr_data s = Inr s'"
  shows "\<exists>st k s'.
       train_epochs b tr_data ev acc [i..<n] (patience_after (val_patience b) acc i) s
         = Inr (st, k, patience_after (val_patience b) acc (i + k), s')
     \<and> i + k \<le> max i n
     \<and> (\<forall>k'. i < k' \<and> k' < i + k \<longrightarrow> 1 \<le> fst (patience_after (val_patience b) acc k'))
     \<and> (st = PatienceOver \<longrightarrow> 1 \<le> k \<and> fst (patience_after (val_patience b) acc (i + k)) < 1)
     \<and> (st = MaxEpochs \<longrightarrow> i + k = max i n
           \<and> (1 \<le> k \<longrightarrow> 1 \<le> fst (patience_after (val_patience b) acc (i + k))))"
proof (induction "n - i" arbitrary: i s)
  case 0
  then have e: "[i..<n] = []" and m: "max i n = i" by simp_all
  have "train_epochs b tr_data ev acc [i..<n] (patience_after (val_patience b) acc i) s
          = Inr (MaxEpochs, 0, patience_after (val_patience b) acc (i + 0), s)"
    by (simp add: e)
  moreover have "i + 0 \<le> max i n" by simp
  moreover have "i + 0 = max i n" using m by simp
  ultimately show ?case by fastforce
next
  case (Suc d)
  let ?pa = "patience_after (val_patience b) acc"
  from Suc.hyps(2) have lt: "i < n" by simp
  then have upt: "[i..<n] = i # [Suc i..<n]" by (simp add: upt_conv_Cons)
  from ok obtain s1 where s1: "train_batches b tr_data s = Inr s1" by blast
  have step: "patience_update (val_patience b) (acc i) (?pa i) = ?pa (Suc i)"
    by (simp add: patience_after_Suc)
  show ?case
  proof (cases "fst (?pa (Suc i)) < 1")
    case True
    have "train_epochs b tr_data ev acc [i..<n] (?pa i) s
            = Inr (PatienceOver, 1, ?pa (i + 1), ev s1)"
      using s1 True by (simp add: upt step Let_def)
    moreover have "i + 1 \<le> max i n" using lt by simp
    moreover have "\<forall>k'. i < k' \<and> k' < i + 1 \<longrightarrow> 1 \<le> fst (?pa k')" by simp
    ultimately show ?thesis using True by auto
  next
    case False
    from Suc.hyps(2) have d: "d = n - Suc i" by simp
    from Suc.hyps(1) [OF d, of "ev s1"] obtain st k s' where
      r: "train_epochs b tr_data ev acc [Suc i..<n] (?pa (Suc i)) (ev s1)
            = Inr (st, k, ?pa (Suc i + k), s')"
      and le: "Suc i + k \<le> max (Suc i) n"
      and mid: "\<forall>k'. Suc i < k' \<and> k' < Suc i + k \<longrightarrow> 1 \<le> fst (?pa k')"
      and po: "st = PatienceOver \<longrightarrow> 1 \<le> k \<and> fst (?pa (Suc i + k)) < 1"
      and me: "st = MaxEpochs \<longrightarrow> Suc i + k = max (Suc i) n
                 \<and> (1 \<le> k \<longrightarrow> 1 \<le> fst (?pa (Suc i + k)))"
      by blast
    have run: "train_epochs b tr_data ev acc [i..<n] (?pa i) s
            = Inr (st, Suc k, ?pa (i + Suc k), s')"
      using s1 False r by (simp add: upt step Let_def)
    have le': "i + Suc k \<le> max i n" using le lt by simp
    have mid': "\<forall>k'. i < k' \<and> k' < i + Suc k \<longrightarrow> 1 \<le> fst (?pa k')"
    proof (intro allI impI)
      fix k' assume k': "i < k' \<and> k' < i + Suc k"
      show "1 \<le> fst (?pa k')"
      proof (cases "k' = Suc i")
        case True
        with False show ?thesis by simp
      next
        case False
        with k' mid show ?thesis by simp
      qed
    qed
    have po': "st = PatienceOver \<longrightarrow> 1 \<le> Suc k \<and> fst (?pa (i + Suc k)) < 1"
      using po by simp
    have me': "st = MaxEpochs \<longrightarrow> i + Suc k = max i n
                 \<and> (1 \<le> Suc k \<longrightarrow> 1 \<le> fst (?pa (i + Suc k)))"
    proof
      assume m: "st = MaxEpochs"
      with me lt have e: "i + Suc k = max i n" by simp
      have "1 \<le> fst (?pa (i + Suc k))"
      proof (cases k)
        case 0
        with False show ?thesis by simp
      next
        case (Suc j)
        then have "1 \<le> k" by simp
        with me m have "1 \<le> fst (?pa (Suc i + k))" by blast
        then show ?thesis by simp
      qed
      with e show "i + Suc k = max i n \<and> (1 \<le> Suc k \<longrightarrow> 1 \<le> fst (?pa (i + Suc k)))"
        by simp
    qed
    from run le' mid' po' me' show ?thesis by blast
  qed
qed

text \<open>
  C5. An epoch decrements the patience counter when its validation accuracy is strictly
  less than the best so far, and otherwise sets the counter to \<open>val_patience\<close> and the
  best to that accuracy; the best after \<open>j\<close> epochs is the greatest of the initial 0 and
  the accuracies seen. When the network is set to train and the labels of the training
  data are in the action list, \<open>train\<close> returns: it runs \<open>k \<le> num_epochs\<close> epochs, no
  earlier epoch left the counter below 1, it stops early exactly when epoch \<open>k\<close> left the
  counter below 1 (at 0, when \<open>val_patience\<close> is at least 1), it runs \<open>num_epochs\<close> epochs
  when no epoch does, and on either exit the last call the network received is \<open>save\<close>.
  With the accuracies 0.5, 0.4, 0.3, patience 2 and at least three epochs allowed, it
  stops after the third epoch.
\<close>

theorem early_stopping:
  assumes "network_train_now b"
    and "\<forall>batch \<in> set tr_data. \<forall>d \<in> set (zip (fst batch) (snd batch)).
           \<forall>cr \<in> set (zip (fst d) (snd d)). resp_act (snd cr) \<in> set (actions b)"
  shows "patience_update (val_patience b) a (cp, best)
           = (if a < best then (cp - 1, best) else (val_patience b, a))
     \<and> snd (patience_after (val_patience b) acc j) = Max (insert 0 (acc ` {..<j}))
     \<and> (\<exists>st k s'.
           train b tr_data ev acc s = Inr (st, k, patience_after (val_patience b) acc k, s')
         \<and> k \<le> num_epochs b
         \<and> (\<forall>k'. 1 \<le> k' \<and> k' < k \<longrightarrow> 1 \<le> fst (patience_after (val_patience b) acc k'))
         \<and> (st = PatienceOver
               \<longleftrightarrow> 1 \<le> k \<and> fst (patience_after (val_patience b) acc k) < 1)
         \<and> (st = MaxEpochs \<longrightarrow> k = num_epochs b)
         \<and> (1 \<le> val_patience b \<and> st = PatienceOver \<longrightarrow>
               fst (patience_after (val_patience b) acc k) = 0)
         \<and> net_log s' \<noteq> [] \<and> last (net_log s') = Save
         \<and> ((\<forall>k'. 1 \<le> k' \<and> k' \<le> num_epochs b \<longrightarrow>
                  1 \<le> fst (patience_after (val_patience b) acc k')) \<longrightarrow>
               st = MaxEpochs \<and> k = num_epochs b)
         \<and> (acc 0 = 1 / 2 \<and> acc 1 = 2 / 5 \<and> acc 2 = 3 / 10 \<and> val_patience b = 2
               \<and> 3 \<le> num_epochs b \<longrightarrow>
               st = PatienceOver \<and> k = 3))"
proof -
  let ?pa = "patience_after (val_patience b) acc"
  have ok: "\<exists>s'. train_batches b tr_data s = Inr s'" for s
    using assms(2) by (rule train_batches_ok)
  from train_epochs_run [of b tr_data ev acc 0 "num_epochs b" s, OF ok] obtain st k s1 where
    r: "train_epochs b tr_data ev acc [0..<num_epochs b] (?pa 0) s = Inr (st, k, ?pa k, s1)"
    and le: "k \<le> num_epochs b"
    and mid: "\<forall>k'. 0 < k' \<and> k' < k \<longrightarrow> 1 \<le> fst (?pa k')"
    and po: "st = PatienceOver \<longrightarrow> 1 \<le> k \<and> fst (?pa k) < 1"
    and me: "st = MaxEpochs \<longrightarrow> k = num_epochs b \<and> (1 \<le> k \<longrightarrow> 1 \<le> fst (?pa k))"
    by auto
  have run: "train b tr_data ev acc s = Inr (st, k, ?pa k, save s1)"
    using assms(1) r by (simp add: train_def)
  have mid': "\<forall>k'. 1 \<le> k' \<and> k' < k \<longrightarrow> 1 \<le> fst (?pa k')"
    using mid by simp
  have iff: "st = PatienceOver \<longleftrightarrow> 1 \<le> k \<and> fst (?pa k) < 1"
  proof
    assume "st = PatienceOver"
    with po show "1 \<le> k \<and> fst (?pa k) < 1" by blast
  next
    assume h: "1 \<le> k \<and> fst (?pa k) < 1"
    show "st = PatienceOver"
    proof (cases st)
      case PatienceOver
      then show ?thesis .
    next
      case MaxEpochs
      with me h show ?thesis by auto
    qed
  qed
  have mx: "st = MaxEpochs \<longrightarrow> k = num_epochs b" using me by blast
  have zero: "1 \<le> val_patience b \<and> st = PatienceOver \<longrightarrow> fst (?pa k) = 0"
  proof
    assume h: "1 \<le> val_patience b \<and> st = PatienceOver"
    with po have k1: "1 \<le> k" and lt: "fst (?pa k) < 1" by auto
    then obtain k0 where k: "k = Suc k0" by (cases k) auto
    have prev: "1 \<le> fst (?pa k0)"
    proof (cases k0)
      case 0
      with h show ?thesis by simp
    next
      case (Suc n)
      with mid k show ?thesis by simp
    qed
    from patience_after_step_lower [of "val_patience b" acc k0] h prev k
    have "0 \<le> fst (?pa k)" by simp
    with lt show "fst (?pa k) = 0" by simp
  qed
  have sv: "net_log (save s1) \<noteq> [] \<and> last (net_log (save s1)) = Save"
    by (simp add: save_def)
  have never: "(\<forall>k'. 1 \<le> k' \<and> k' \<le> num_epochs b \<longrightarrow> 1 \<le> fst (?pa k'))
                 \<longrightarrow> st = MaxEpochs \<and> k = num_epochs b"
  proof
    assume h: "\<forall>k'. 1 \<le> k' \<and> k' \<le> num_epochs b \<longrightarrow> 1 \<le> fst (?pa k')"
    have "st \<noteq> PatienceOver"
    proof
      assume "st = PatienceOver"
      with po have "1 \<le> k" "fst (?pa k) < 1" by auto
      with h le show False by fastforce
    qed
    then have "st = MaxEpochs" by (cases st) auto
    with mx show "st = MaxEpochs \<and> k = num_epochs b" by simp
  qed
  have example: "acc 0 = 1 / 2 \<and> acc 1 = 2 / 5 \<and> acc 2 = 3 / 10 \<and> val_patience b = 2
               \<and> 3 \<le> num_epochs b \<longrightarrow> st = PatienceOver \<and> k = 3"
  proof
    assume h: "acc 0 = 1 / 2 \<and> acc 1 = 2 / 5 \<and> acc 2 = 3 / 10 \<and> val_patience b = 2
               \<and> 3 \<le> num_epochs b"
    have p1: "?pa 1 = (2, 1 / 2)"
      using h patience_after_Suc [of "val_patience b" acc 0]
      by (simp add: patience_update_eq)
    have p2: "?pa 2 = (1, 1 / 2)"
      using h p1 patience_after_Suc [of "val_patience b" acc 1]
      by (simp add: patience_update_eq numeral_2_eq_2)
    have p3: "?pa 3 = (0, 1 / 2)"
      using h p2 patience_after_Suc [of "val_patience b" acc 2]
      by (simp add: patience_update_eq numeral_3_eq_3 numeral_2_eq_2)
    have k3: "k \<le> 3"
    proof (rule ccontr)
      assume "\<not> k \<le> 3"
      then have "1 \<le> (3::nat) \<and> 3 < k" by simp
      with mid' have "1 \<le> fst (?pa 3)" by blast
      with p3 show False by simp
    qed
    have k0: "k \<noteq> 0"
    proof
      assume "k = 0"
      moreover from this po have "st = MaxEpochs" by (cases st) auto
      ultimately show False using mx h by simp
    qed
    have st: "st = PatienceOver"
    proof (cases st)
      case PatienceOver
      then show ?thesis .
    next
      case MaxEpochs
      with mx h k3 have "k = 3" by simp
      with iff p3 show ?thesis by simp
    qed
    with po have lt: "fst (?pa k) < 1" by blast
    have "k \<noteq> 1" using lt p1 by auto
    moreover have "k \<noteq> 2" using lt p2 by auto
    ultimately have "k = 3" using k3 k0 by arith
    with st show "st = PatienceOver \<and> k = 3" by simp
  qed
  have first: "patience_update (val_patience b) a (cp, best)
           = (if a < best then (cp - 1, best) else (val_patience b, a))"
    by (rule patience_update_eq)
  have second: "snd (?pa j) = Max (insert 0 (acc ` {..<j}))"
    by (rule patience_after_best)
  from run le mid' iff mx zero sv never example
  have "\<exists>st k s'.
           train b tr_data ev acc s = Inr (st, k, ?pa k, s')
         \<and> k \<le> num_epochs b
         \<and> (\<forall>k'. 1 \<le> k' \<and> k' < k \<longrightarrow> 1 \<le> fst (?pa k'))
         \<and> (st = PatienceOver \<longleftrightarrow> 1 \<le> k \<and> fst (?pa k) < 1)
         \<and> (st = MaxEpochs \<longrightarrow> k = num_epochs b)
         \<and> (1 \<le> val_patience b \<and> st = PatienceOver \<longrightarrow> fst (?pa k) = 0)
         \<and> net_log s' \<noteq> [] \<and> last (net_log s') = Save
         \<and> ((\<forall>k'. 1 \<le> k' \<and> k' \<le> num_epochs b \<longrightarrow> 1 \<le> fst (?pa k')) \<longrightarrow>
               st = MaxEpochs \<and> k = num_epochs b)
         \<and> (acc 0 = 1 / 2 \<and> acc 1 = 2 / 5 \<and> acc 2 = 3 / 10 \<and> val_patience b = 2
               \<and> 3 \<le> num_epochs b \<longrightarrow> st = PatienceOver \<and> k = 3)"
    by (intro exI [of _ st] exI [of _ k] exI [of _ "save s1"]) blast
  with first second show ?thesis by blast
qed

lemma patience_after_improving:
  "patience_after 2 (\<lambda>j. real j) k = (2, if k = 0 then 0 else real (k - 1))"
  by (induction k) (auto simp: patience_after_Suc patience_update_eq)

text \<open>
  The statement at the demonstration bot, with patience 2 and five epochs: it stops after
  the third epoch for the falling accuracies, and runs all five for accuracies that rise.
\<close>

theorem early_stopping_witness:
  "network_train_now demo_bot
   \<and> resp_act (demo_responses ! 0) \<in> set (actions demo_bot)
   \<and> resp_act (demo_responses ! 1) \<in> set (actions demo_bot)
   \<and> demo_accuracy 0 = 1 / 2 \<and> demo_accuracy 1 = 2 / 5 \<and> demo_accuracy 2 = 3 / 10
   \<and> val_patience demo_bot = 2 \<and> num_epochs demo_bot = 5
   \<and> (\<exists>s'. train demo_bot demo_tr_data (\<lambda>s. s) demo_accuracy demo_state
               = Inr (PatienceOver, 3, patience_after 2 demo_accuracy 3, s')
            \<and> fst (patience_after 2 demo_accuracy 3) = 0
            \<and> last (net_log s') = Save)
   \<and> (\<forall>k'. 1 \<le> fst (patience_after 2 (\<lambda>j. real j) k'))
   \<and> (\<exists>s'. train demo_bot demo_tr_data (\<lambda>s. s) (\<lambda>j. real j) demo_state
               = Inr (MaxEpochs, 5, patience_after 2 (\<lambda>j. real j) 5, s')
            \<and> last (net_log s') = Save)"
proof -
  have h1: "network_train_now demo_bot" by (simp add: demo_bot_def)
  have h2: "\<forall>batch \<in> set demo_tr_data. \<forall>d \<in> set (zip (fst batch) (snd batch)).
           \<forall>cr \<in> set (zip (fst d) (snd d)). resp_act (snd cr) \<in> set (actions demo_bot)"
    by (simp add: demo_tr_data_def demo_contexts_def demo_responses_def actions_def demo_bot_def)
  have lab: "resp_act (demo_responses ! 0) \<in> set (actions demo_bot)"
    "resp_act (demo_responses ! 1) \<in> set (actions demo_bot)"
    by (simp_all add: demo_responses_def actions_def demo_bot_def)
  have acc: "demo_accuracy 0 = 1 / 2" "demo_accuracy 1 = 2 / 5" "demo_accuracy 2 = 3 / 10"
    by (simp_all add: demo_accuracy_def)
  have cfg: "val_patience demo_bot = 2" "num_epochs demo_bot = 5"
    by (simp_all add: demo_bot_def)
  from early_stopping [OF h1 h2, of _ _ _ demo_accuracy _ "\<lambda>s. s" demo_state]
  obtain st k s' where
    r: "train demo_bot demo_tr_data (\<lambda>s. s) demo_accuracy demo_state
          = Inr (st, k, patience_after (val_patience demo_bot) demo_accuracy k, s')"
    and z: "1 \<le> val_patience demo_bot \<and> st = PatienceOver \<longrightarrow>
               fst (patience_after (val_patience demo_bot) demo_accuracy k) = 0"
    and sv: "last (net_log s') = Save"
    and ex: "demo_accuracy 0 = 1 / 2 \<and> demo_accuracy 1 = 2 / 5 \<and> demo_accuracy 2 = 3 / 10
               \<and> val_patience demo_bot = 2 \<and> 3 \<le> num_epochs demo_bot \<longrightarrow>
               st = PatienceOver \<and> k = 3"
    by blast
  from ex acc cfg have sk: "st = PatienceOver" "k = 3" by simp_all
  with z cfg have zero: "fst (patience_after 2 demo_accuracy 3) = 0" by simp
  from r sk cfg sv zero have falling:
    "\<exists>s'. train demo_bot demo_tr_data (\<lambda>s. s) demo_accuracy demo_state
               = Inr (PatienceOver, 3, patience_after 2 demo_accuracy 3, s')
            \<and> fst (patience_after 2 demo_accuracy 3) = 0
            \<and> last (net_log s') = Save"
    by auto
  have never: "\<forall>k'. 1 \<le> fst (patience_after 2 (\<lambda>j. real j) k')"
    by (simp add: patience_after_improving)
  from early_stopping [OF h1 h2, of _ _ _ "\<lambda>j. real j" _ "\<lambda>s. s" demo_state]
  obtain st2 k2 s2 where
    r2: "train demo_bot demo_tr_data (\<lambda>s. s) (\<lambda>j. real j) demo_state
          = Inr (st2, k2, patience_after (val_patience demo_bot) (\<lambda>j. real j) k2, s2)"
    and sv2: "last (net_log s2) = Save"
    and nv: "(\<forall>k'. 1 \<le> k' \<and> k' \<le> num_epochs demo_bot \<longrightarrow>
                  1 \<le> fst (patience_after (val_patience demo_bot) (\<lambda>j. real j) k')) \<longrightarrow>
               st2 = MaxEpochs \<and> k2 = num_epochs demo_bot"
    by blast
  from nv never cfg have "st2 = MaxEpochs" "k2 = 5" by simp_all
  with r2 sv2 cfg have rising:
    "\<exists>s'. train demo_bot demo_tr_data (\<lambda>s. s) (\<lambda>j. real j) demo_state
               = Inr (MaxEpochs, 5, patience_after 2 (\<lambda>j. real j) 5, s')
            \<and> last (net_log s') = Save"
    by auto
  from h1 lab acc cfg falling never rising show ?thesis by blast
qed

end
